theory Spec2Isabelle
  imports Main "HOL-Library.Word"
begin

unbundle bit_operations_syntax

section \<open>The ST7735 driver (package st7735)\<close>

subsection \<open>Controller opcodes and constants\<close>

type_synonym byte = "8 word"

definition ST7735_SWRESET :: byte where "ST7735_SWRESET = 0x01"
definition ST7735_SLPIN :: byte where "ST7735_SLPIN = 0x10"
definition ST7735_SLPOUT :: byte where "ST7735_SLPOUT = 0x11"
definition ST7735_FRMCTR1 :: byte where "ST7735_FRMCTR1 = 0xB1"
definition ST7735_FRMCTR2 :: byte where "ST7735_FRMCTR2 = 0xB2"
definition ST7735_FRMCTR3 :: byte where "ST7735_FRMCTR3 = 0xB3"
definition ST7735_INVCTR :: byte where "ST7735_INVCTR = 0xB4"
definition ST7735_INVOFF :: byte where "ST7735_INVOFF = 0x20"
definition ST7735_INVON :: byte where "ST7735_INVON = 0x21"
definition ST7735_PWCTR1 :: byte where "ST7735_PWCTR1 = 0xC0"
definition ST7735_PWCTR2 :: byte where "ST7735_PWCTR2 = 0xC1"
definition ST7735_PWCTR4 :: byte where "ST7735_PWCTR4 = 0xC3"
definition ST7735_PWCTR5 :: byte where "ST7735_PWCTR5 = 0xC4"
definition ST7735_VMCTR1 :: byte where "ST7735_VMCTR1 = 0xC5"
definition ST7735_MADCTL :: byte where "ST7735_MADCTL = 0x36"
definition ST7735_COLMOD :: byte where "ST7735_COLMOD = 0x3A"
definition ST7735_CASET :: byte where "ST7735_CASET = 0x2A"
definition ST7735_RASET :: byte where "ST7735_RASET = 0x2B"
definition ST7735_RAMWR :: byte where "ST7735_RAMWR = 0x2C"
definition ST7735_GMCTRP1 :: byte where "ST7735_GMCTRP1 = 0xE0"
definition ST7735_GMCTRN1 :: byte where "ST7735_GMCTRN1 = 0xE1"
definition ST7735_NORON :: byte where "ST7735_NORON = 0x13"
definition ST7735_DISPON :: byte where "ST7735_DISPON = 0x29"
definition ST7735_TFTWIDTH :: nat where "ST7735_TFTWIDTH = 80"
definition ST7735_TFTHEIGHT :: nat where "ST7735_TFTHEIGHT = 160"
definition ST7735_COLS :: nat where "ST7735_COLS = 132"
definition ST7735_ROWS :: nat where "ST7735_ROWS = 162"

definition ChunkSize :: nat where "ChunkSize = 4096"

subsection \<open>The device handle and its collaborators\<close>

text \<open>
  The SPI connection (\<open>conn.Conn\<close>) and the GPIO pins (\<open>gpio.PinOut\<close>) are interfaces of
  the periph.io library. A pin and a connection are identified by a number. Everything the
  driver does to them is one of three actions: \<open>Out\<close> on a pin, \<open>Tx\<close> on a connection (the
  driver always passes \<open>nil\<close> as the read buffer) and \<open>time.Sleep\<close>, whose argument is a
  \<open>time.Duration\<close>, a count of nanoseconds.
\<close>

type_synonym pin = nat
type_synonym connection = nat

datatype level = Low | High

datatype action =
    PinOut pin level
  | ConnTx connection "byte list"
  | TimeSleep int

text \<open>
  The trace lists every call the driver makes, in order, each with what it returned:
  \<open>None\<close> for Go's \<open>nil\<close> error, \<open>Some err\<close> for an error. What a call returns is decided by
  the environment, a function of the calls made so far and the call attempted. The type of
  errors is left open: the driver never inspects one.
\<close>

type_synonym 'e event = "action \<times> 'e option"
type_synonym 'e env = "'e event list \<Rightarrow> action \<Rightarrow> 'e option"

record Opts =
  Width :: byte
  Height :: byte
  OffsetLeft :: byte
  OffsetTop :: byte

text \<open>
  The handle: \<open>rst\<close> and \<open>backlight\<close> may be \<open>nil\<close>; \<open>dc\<close> is the pin every send drives.
  The field \<open>c\<close> of the source is \<open>conn\<close> here.
\<close>

record Dev =
  conn :: connection
  dc :: pin
  rst :: "pin option"
  backlight :: "pin option"
  opts :: Opts

definition DefaultOpts :: Opts where
  "DefaultOpts = \<lparr>
     Width = of_nat ST7735_TFTWIDTH,
     Height = of_nat ST7735_TFTHEIGHT,
     OffsetLeft = of_nat ((ST7735_COLS - ST7735_TFTWIDTH) div 2),
     OffsetTop = of_nat ((ST7735_ROWS - ST7735_TFTHEIGHT) div 2) \<rparr>"

record commandAndData =
  cmd :: "byte list"
  data :: "byte list"
  sleep :: int

definition Millisecond :: int where
  "Millisecond = 1000000"

subsection \<open>The calls on the collaborators\<close>

definition pin_Out :: "'e env \<Rightarrow> pin \<Rightarrow> level \<Rightarrow> 'e event list \<Rightarrow> 'e event list \<times> 'e option" where
  "pin_Out env p l tr = (let r = env tr (PinOut p l) in (tr @ [(PinOut p l, r)], r))"

definition conn_Tx :: "'e env \<Rightarrow> connection \<Rightarrow> byte list \<Rightarrow> 'e event list \<Rightarrow> 'e event list \<times> 'e option" where
  "conn_Tx env k w tr = (let r = env tr (ConnTx k w) in (tr @ [(ConnTx k w, r)], r))"

definition time_Sleep :: "int \<Rightarrow> 'e event list \<Rightarrow> 'e event list" where
  "time_Sleep dur tr = tr @ [(TimeSleep dur, None)]"

text \<open>Go's \<open>c[offset:end]\<close>, for \<open>offset \<le> end \<le> len(c)\<close>.\<close>

definition slice :: "'a list \<Rightarrow> nat \<Rightarrow> nat \<Rightarrow> 'a list" where
  "slice xs lo hi = take (hi - lo) (drop lo xs)"

subsection \<open>The send primitives\<close>

definition sendCommand :: "'e env \<Rightarrow> Dev \<Rightarrow> byte list \<Rightarrow> 'e event list \<Rightarrow> 'e event list \<times> 'e option" where
  "sendCommand env d c tr =
     (case pin_Out env (dc d) Low tr of
        (tr1, Some err) \<Rightarrow> (tr1, Some err)
      | (tr1, None) \<Rightarrow> conn_Tx env (conn d) c tr1)"

text \<open>
  The loop of \<open>sendData\<close>: \<open>for offset := 0; offset < len(c); offset += ChunkSize\<close>.
  The length of a slice is far below the largest \<open>int\<close>, so \<open>offset\<close> is a natural number.
\<close>

function sendData_loop :: "'e env \<Rightarrow> Dev \<Rightarrow> byte list \<Rightarrow> nat \<Rightarrow> 'e event list \<Rightarrow> 'e event list \<times> 'e option" where
  "sendData_loop env d c offset tr =
     (if offset < length c then
        (let end0 = offset + ChunkSize;
             end1 = (if end0 > length c then length c else end0)
         in case conn_Tx env (conn d) (slice c offset end1) tr of
              (tr1, Some err) \<Rightarrow> (tr1, Some err)
            | (tr1, None) \<Rightarrow> sendData_loop env d c (offset + ChunkSize) tr1)
      else (tr, None))"
  by pat_completeness auto
termination
  by (relation "measure (\<lambda>(env, d, c, offset, tr). length c - offset)")
     (auto simp: ChunkSize_def)

definition sendData :: "'e env \<Rightarrow> Dev \<Rightarrow> byte list \<Rightarrow> 'e event list \<Rightarrow> 'e event list \<times> 'e option" where
  "sendData env d c tr =
     (case pin_Out env (dc d) High tr of
        (tr1, Some err) \<Rightarrow> (tr1, Some err)
      | (tr1, None) \<Rightarrow> sendData_loop env d c 0 tr1)"

fun sendBatch :: "'e env \<Rightarrow> Dev \<Rightarrow> commandAndData list \<Rightarrow> 'e event list \<Rightarrow> 'e event list \<times> 'e option" where
  "sendBatch env d [] tr = (tr, None)"
| "sendBatch env d (cad # commands) tr =
     (case sendCommand env d (cmd cad) tr of
        (tr1, Some err) \<Rightarrow> (tr1, Some err)
      | (tr1, None) \<Rightarrow>
          if length (data cad) = 0 then sendBatch env d commands tr1
          else (case sendData env d (data cad) tr1 of
                  (tr2, Some err) \<Rightarrow> (tr2, Some err)
                | (tr2, None) \<Rightarrow>
                    sendBatch env d commands
                      (if sleep cad > 0 then time_Sleep (sleep cad) tr2 else tr2)))"

subsection \<open>Initialisation\<close>

definition Init :: "'e env \<Rightarrow> Dev \<Rightarrow> 'e event list \<Rightarrow> 'e event list \<times> 'e option" where
  "Init env d tr =
     (let invert = \<lparr>cmd = [ST7735_INVON], data = [], sleep = 0\<rparr>;
          invert = (if False then \<lparr>cmd = [ST7735_INVOFF], data = [], sleep = 0\<rparr> else invert);
          width = Width (opts d);
          height = Height (opts d);
          offsetLeft = OffsetLeft (opts d);
          offsetTop = OffsetTop (opts d);
          init = [
            \<lparr>cmd = [ST7735_SWRESET], data = [], sleep = 150 * Millisecond\<rparr>,
            \<lparr>cmd = [ST7735_SLPOUT], data = [], sleep = 500 * Millisecond\<rparr>,
            \<lparr>cmd = [ST7735_FRMCTR1], data = [0x01, 0x2C, 0x2D], sleep = 0\<rparr>,
            \<lparr>cmd = [ST7735_FRMCTR2], data = [0x01, 0x2C, 0x2D], sleep = 0\<rparr>,
            \<lparr>cmd = [ST7735_FRMCTR3], data = [0x01, 0x2C, 0x2D, 0x01, 0x2C, 0x2D], sleep = 0\<rparr>,
            \<lparr>cmd = [ST7735_INVCTR], data = [0x07], sleep = 0\<rparr>,
            \<lparr>cmd = [ST7735_PWCTR1], data = [0xA2, 0x02, 0x84], sleep = 0\<rparr>,
            \<lparr>cmd = [ST7735_PWCTR2], data = [0x0A, 0x00], sleep = 0\<rparr>,
            \<lparr>cmd = [ST7735_PWCTR4], data = [0x8A, 0x2A], sleep = 0\<rparr>,
            \<lparr>cmd = [ST7735_PWCTR5], data = [0x8A, 0xEE], sleep = 0\<rparr>,
            \<lparr>cmd = [ST7735_VMCTR1], data = [0x0E], sleep = 0\<rparr>,
            invert,
            \<lparr>cmd = [ST7735_MADCTL], data = [0xC8], sleep = 0\<rparr>,
            \<lparr>cmd = [ST7735_COLMOD], data = [0x05], sleep = 0\<rparr>,
            \<lparr>cmd = [ST7735_CASET], data = [0x00, offsetLeft, 0x00, width + offsetLeft - 1], sleep = 0\<rparr>,
            \<lparr>cmd = [ST7735_RASET], data = [0x00, offsetTop, 0x00, height + offsetTop - 1], sleep = 0\<rparr>,
            \<lparr>cmd = [ST7735_GMCTRP1], data = [0x02, 0x1c, 0x07, 0x12,
               0x37, 0x32, 0x29, 0x2d, 0x29, 0x25, 0x2B, 0x39, 0x00,
               0x01, 0x03, 0x10], sleep = 0\<rparr>,
            \<lparr>cmd = [ST7735_GMCTRN1], data = [0x03, 0x1d, 0x07, 0x06,
               0x2E, 0x2C, 0x29, 0x2D, 0x2E, 0x2E, 0x37, 0x3F, 0x00,
               0x00, 0x02, 0x10], sleep = 0\<rparr>,
            \<lparr>cmd = [ST7735_NORON], data = [], sleep = 100 * Millisecond\<rparr>,
            \<lparr>cmd = [ST7735_DISPON], data = [], sleep = 100 * Millisecond\<rparr>]
      in sendBatch env d init tr)"

definition Powersave :: "'e env \<Rightarrow> Dev \<Rightarrow> 'e event list \<Rightarrow> 'e event list \<times> 'e option" where
  "Powersave env d tr = sendCommand env d [ST7735_SLPIN] tr"

text \<open>
  \<open>SetBacklight\<close> has no result in the source: what \<open>Out\<close> returns is dropped, and the
  model returns the trace alone.
\<close>

definition SetBacklight :: "'e env \<Rightarrow> Dev \<Rightarrow> bool \<Rightarrow> 'e event list \<Rightarrow> 'e event list" where
  "SetBacklight env d v tr =
     (case backlight d of
        None \<Rightarrow> tr
      | Some bl \<Rightarrow>
          if v then fst (pin_Out env bl High tr)
          else fst (pin_Out env bl Low tr))"

definition Halt :: "'e env \<Rightarrow> Dev \<Rightarrow> 'e event list \<Rightarrow> 'e event list \<times> 'e option" where
  "Halt env d tr = Powersave env d (SetBacklight env d False tr)"


subsection \<open>Go's \<open>int\<close>\<close>

text \<open>
  On a 64-bit platform an \<open>int\<close> of Go is 64 bits wide, and its arithmetic wraps around
  silently. The model is of such a platform: it computes on the integers and writes the
  wrap-around out where the source adds to or subtracts from a value the caller supplies. A conversion to \<open>byte\<close> keeps the low eight
  bits; \<open>>>\<close> on an \<open>int\<close> is the arithmetic shift, which is \<open>drop_bit\<close> on the integers.
\<close>

definition wrap_int :: "int \<Rightarrow> int" where
  "wrap_int v = signed_take_bit 63 v"

definition to_byte :: "int \<Rightarrow> byte" where
  "to_byte v = word_of_int v"

subsection \<open>Addressing window\<close>

definition SetWindow :: "'e env \<Rightarrow> Dev \<Rightarrow> int \<Rightarrow> int \<Rightarrow> int \<Rightarrow> int \<Rightarrow> 'e event list \<Rightarrow> 'e event list \<times> 'e option" where
  "SetWindow env d x0 y0 x1 y1 tr =
     (let y0 = wrap_int (y0 + uint (OffsetTop (opts d)));
          y1 = wrap_int (y1 + uint (OffsetTop (opts d)));
          x0 = wrap_int (x0 + uint (OffsetLeft (opts d)));
          x1 = wrap_int (x1 + uint (OffsetLeft (opts d)));
          commands = [
            \<lparr>cmd = [ST7735_CASET],
             data = [to_byte (drop_bit 8 x0), to_byte x0, to_byte (drop_bit 8 x1), to_byte x1],
             sleep = 0\<rparr>,
            \<lparr>cmd = [ST7735_RASET],
             data = [to_byte (drop_bit 8 y0), to_byte y0, to_byte (drop_bit 8 y1), to_byte y1],
             sleep = 0\<rparr>,
            \<lparr>cmd = [ST7735_RAMWR], data = [], sleep = 0\<rparr>]
      in sendBatch env d commands tr)"

subsection \<open>Colour packing\<close>

text \<open>
  \<open>color.RGBA\<close> of Go's standard library, and its method \<open>RGBA()\<close>, which widens each
  8-bit channel \<open>v\<close> to the 16-bit value \<open>v | v << 8\<close> held in a \<open>uint32\<close>.
\<close>

record color_RGBA =
  R :: byte
  G :: byte
  B :: byte
  A :: byte

definition RGBA :: "color_RGBA \<Rightarrow> 32 word \<times> 32 word \<times> 32 word \<times> 32 word" where
  "RGBA c =
     (let r = ucast (R c); r = r OR push_bit 8 r;
          g = ucast (G c); g = g OR push_bit 8 g;
          b = ucast (B c); b = b OR push_bit 8 b;
          a = ucast (A c); a = a OR push_bit 8 a
      in (r, g, b, a))"

definition RGBATo565 :: "color_RGBA \<Rightarrow> 16 word" where
  "RGBATo565 c =
     (case RGBA c of (r, g, b, _) \<Rightarrow>
        ucast ((r AND 0xF800) + drop_bit 5 (g AND 0xFC00) + drop_bit 11 (b AND 0xF800)))"

subsection \<open>Images\<close>

text \<open>
  \<open>image.Point\<close> and \<open>image.Rectangle\<close> of Go's standard library, with the methods the
  driver calls and \<open>Overlaps\<close>, which the driver does not call: it tells whether two
  rectangles have a point in common. The fields \<open>Min\<close> and \<open>Max\<close> of a rectangle are
  \<open>MinP\<close> and \<open>MaxP\<close> here.
\<close>

record Point =
  X :: int
  Y :: int

record Rectangle =
  MinP :: Point
  MaxP :: Point

definition ZR :: Rectangle where
  "ZR = \<lparr>MinP = \<lparr>X = 0, Y = 0\<rparr>, MaxP = \<lparr>X = 0, Y = 0\<rparr>\<rparr>"

definition Add :: "Rectangle \<Rightarrow> Point \<Rightarrow> Rectangle" where
  "Add r p = \<lparr>MinP = \<lparr>X = wrap_int (X (MinP r) + X p), Y = wrap_int (Y (MinP r) + Y p)\<rparr>,
             MaxP = \<lparr>X = wrap_int (X (MaxP r) + X p), Y = wrap_int (Y (MaxP r) + Y p)\<rparr>\<rparr>"

definition Sub :: "Rectangle \<Rightarrow> Point \<Rightarrow> Rectangle" where
  "Sub r p = \<lparr>MinP = \<lparr>X = wrap_int (X (MinP r) - X p), Y = wrap_int (Y (MinP r) - Y p)\<rparr>,
             MaxP = \<lparr>X = wrap_int (X (MaxP r) - X p), Y = wrap_int (Y (MaxP r) - Y p)\<rparr>\<rparr>"

definition Empty :: "Rectangle \<Rightarrow> bool" where
  "Empty r = (X (MinP r) \<ge> X (MaxP r) \<or> Y (MinP r) \<ge> Y (MaxP r))"

definition Intersect :: "Rectangle \<Rightarrow> Rectangle \<Rightarrow> Rectangle" where
  "Intersect r s =
     (let r = (if X (MinP r) < X (MinP s) then r\<lparr>MinP := (MinP r)\<lparr>X := X (MinP s)\<rparr>\<rparr> else r);
          r = (if Y (MinP r) < Y (MinP s) then r\<lparr>MinP := (MinP r)\<lparr>Y := Y (MinP s)\<rparr>\<rparr> else r);
          r = (if X (MaxP r) > X (MaxP s) then r\<lparr>MaxP := (MaxP r)\<lparr>X := X (MaxP s)\<rparr>\<rparr> else r);
          r = (if Y (MaxP r) > Y (MaxP s) then r\<lparr>MaxP := (MaxP r)\<lparr>Y := Y (MaxP s)\<rparr>\<rparr> else r)
      in if Empty r then ZR else r)"

definition Overlaps :: "Rectangle \<Rightarrow> Rectangle \<Rightarrow> bool" where
  "Overlaps r s =
     (\<not> Empty r \<and> \<not> Empty s \<and>
      X (MinP r) < X (MaxP s) \<and> X (MinP s) < X (MaxP r) \<and>
      Y (MinP r) < Y (MaxP s) \<and> Y (MinP s) < Y (MaxP r))"

definition In :: "Point \<Rightarrow> Rectangle \<Rightarrow> bool" where
  "In p r = (X (MinP r) \<le> X p \<and> X p < X (MaxP r) \<and> Y (MinP r) \<le> Y p \<and> Y p < Y (MaxP r))"

text \<open>
  \<open>image.RGBA\<close>: its bounds \<open>Rect\<close>, and the pixels it holds. The standard library keeps the
  pixels in a byte slice \<open>Pix\<close> with a stride; the model keeps what that storage
  represents, the colour at each point. \<open>SubImage\<close> shares the pixels of the image and
  narrows the bounds, and \<open>At\<close> returns the zero colour outside the bounds.
\<close>

record image_RGBA =
  Rect :: Rectangle
  Pix :: "int \<Rightarrow> int \<Rightarrow> color_RGBA"

definition Bounds :: "image_RGBA \<Rightarrow> Rectangle" where
  "Bounds p = Rect p"

definition SubImage :: "image_RGBA \<Rightarrow> Rectangle \<Rightarrow> image_RGBA" where
  "SubImage p r =
     (let r = Intersect r (Rect p)
      in if Empty r then \<lparr>Rect = ZR, Pix = Pix p\<rparr>
         else \<lparr>Rect = r, Pix = Pix p\<rparr>)"

definition At :: "image_RGBA \<Rightarrow> int \<Rightarrow> int \<Rightarrow> color_RGBA" where
  "At p x y =
     (if \<not> In \<lparr>X = x, Y = y\<rparr> (Rect p) then \<lparr>R = 0, G = 0, B = 0, A = 0\<rparr>
      else Pix p x y)"

subsection \<open>Streaming an image\<close>

text \<open>The two bytes \<open>byte(cd>>8), byte(cd)\<close> that \<open>DisplayImage\<close> appends for a pixel.\<close>

definition pixel_bytes :: "color_RGBA \<Rightarrow> byte list" where
  "pixel_bytes c = [ucast (drop_bit 8 (RGBATo565 c)), ucast (RGBATo565 c)]"

text \<open>
  The two loops of \<open>DisplayImage\<close>. The counters stay below \<open>bounds.Max\<close>, so their
  increments do not overflow.
\<close>

function DisplayImage_loop_y :: "image_RGBA \<Rightarrow> Rectangle \<Rightarrow> int \<Rightarrow> int \<Rightarrow> byte list \<Rightarrow> byte list" where
  "DisplayImage_loop_y subImg bounds x y buf =
     (if y < Y (MaxP bounds) then
        (let c = At subImg x y;
             cd = RGBATo565 c
         in DisplayImage_loop_y subImg bounds x (y + 1)
              (buf @ [ucast (drop_bit 8 cd), ucast cd]))
      else buf)"
  by pat_completeness auto
termination
  by (relation "measure (\<lambda>(subImg, bounds, x, y, buf). nat (Y (MaxP bounds) - y))") auto

function DisplayImage_loop_x :: "image_RGBA \<Rightarrow> Rectangle \<Rightarrow> int \<Rightarrow> byte list \<Rightarrow> byte list" where
  "DisplayImage_loop_x subImg bounds x buf =
     (if x < X (MaxP bounds) then
        DisplayImage_loop_x subImg bounds (x + 1)
          (DisplayImage_loop_y subImg bounds x (Y (MinP bounds)) buf)
      else buf)"
  by pat_completeness auto
termination
  by (relation "measure (\<lambda>(subImg, bounds, x, buf). nat (X (MaxP bounds) - x))") auto

definition DisplayImage :: "'e env \<Rightarrow> Dev \<Rightarrow> int \<Rightarrow> int \<Rightarrow> image_RGBA \<Rightarrow> 'e event list \<Rightarrow> 'e event list \<times> 'e option" where
  "DisplayImage env d x y img tr =
     (let offsetBounds = Add (Bounds img) \<lparr>X = x, Y = y\<rparr>;
          maxBounds = \<lparr>MinP = \<lparr>X = 0, Y = 0\<rparr>,
                       MaxP = \<lparr>X = uint (Width (opts d)), Y = uint (Height (opts d))\<rparr>\<rparr>;
          offsetBounds = Intersect offsetBounds maxBounds;
          bounds = Sub offsetBounds \<lparr>X = x, Y = y\<rparr>
      in case SetWindow env d (X (MinP offsetBounds)) (Y (MinP offsetBounds))
                (wrap_int (X (MaxP offsetBounds) - 1)) (wrap_int (Y (MaxP offsetBounds) - 1)) tr of
           (tr1, Some err) \<Rightarrow> (tr1, Some err)
         | (tr1, None) \<Rightarrow>
             (let subImg = SubImage img bounds;
                  buf = DisplayImage_loop_x subImg bounds (X (MinP bounds)) []
              in sendData env d buf tr1))"

definition Display :: "'e env \<Rightarrow> Dev \<Rightarrow> byte list \<Rightarrow> 'e event list \<Rightarrow> 'e event list \<times> 'e option" where
  "Display env d dat tr =
     (case SetWindow env d 0 0 (uint (Width (opts d) - 1)) (uint (Height (opts d) - 1)) tr of
        (tr1, Some err) \<Rightarrow> (tr1, Some err)
      | (tr1, None) \<Rightarrow> sendData env d dat tr1)"

subsection \<open>Observing a run\<close>

text \<open>The environment in which no call fails.\<close>

definition no_failure :: "'e env" where
  "no_failure tr a = None"

text \<open>The durations of the sleeps of a trace, in order.\<close>

definition sleeps :: "'e event list \<Rightarrow> int list" where
  "sleeps tr = [dur. (TimeSleep dur, r) \<leftarrow> tr]"

text \<open>
  A run stops at its first failure when at most the last of its calls failed, and the
  result of the run is the result of that last call.
\<close>

definition stops_at_failure :: "'e event list \<Rightarrow> 'e option \<Rightarrow> bool" where
  "stops_at_failure evs r =
     (case r of
        None \<Rightarrow> (\<forall>ev \<in> set evs. snd ev = None)
      | Some err \<Rightarrow> evs \<noteq> [] \<and> (\<forall>ev \<in> set (butlast evs). snd ev = None) \<and> snd (last evs) = Some err)"

definition aborting :: "('e event list \<Rightarrow> 'e event list \<times> 'e option) \<Rightarrow> bool" where
  "aborting f = (\<forall>tr. \<exists>evs. fst (f tr) = tr @ evs \<and> stops_at_failure evs (snd (f tr)))"

text \<open>
  Sample inputs: a handle with the default geometry, an environment whose third call
  fails, and an image of 10 by 10 pixels whose red channel grows with \<open>x\<close> and whose green
  channel grows with \<open>y\<close>.
\<close>

definition img0 :: image_RGBA where
  "img0 = \<lparr>Rect = \<lparr>MinP = \<lparr>X = 0, Y = 0\<rparr>, MaxP = \<lparr>X = 10, Y = 10\<rparr>\<rparr>,
           Pix = (\<lambda>i j. \<lparr>R = word_of_int (8 * i), G = word_of_int (4 * j), B = 0, A = 255\<rparr>)\<rparr>"

definition dev0 :: Dev where
  "dev0 = \<lparr>conn = 0, dc = 9, rst = None, backlight = None, opts = DefaultOpts\<rparr>"

definition fail_third :: "nat env" where
  "fail_third tr a = (if length tr = 2 then Some 5 else None)"

text \<open>
  The values of Go's \<open>int\<close>, and the rectangles that the \<open>image\<close> package calls
  well-formed.
\<close>

definition is_int :: "int \<Rightarrow> bool" where
  "is_int v = (- (2 ^ 63) \<le> v \<and> v < 2 ^ 63)"

definition well_formed :: "Rectangle \<Rightarrow> bool" where
  "well_formed r = (X (MinP r) \<le> X (MaxP r) \<and> Y (MinP r) \<le> Y (MaxP r))"

declare sendData_loop.simps [simp del]

declare DisplayImage_loop_y.simps [simp del]

declare DisplayImage_loop_x.simps [simp del]

section \<open>Colour packing\<close>

lemma mask_F800: "(0xF800 :: 32 word) = push_bit 11 (mask 5)"
  by (simp add: mask_eq_exp_minus_1)

lemma mask_FC00: "(0xFC00 :: 32 word) = push_bit 10 (mask 6)"
  by (simp add: mask_eq_exp_minus_1)

lemma mask_F8: "(0xF8 :: 16 word) = push_bit 3 (mask 5)"
  by (simp add: mask_eq_exp_minus_1)

lemma mask_FC: "(0xFC :: 16 word) = push_bit 2 (mask 6)"
  by (simp add: mask_eq_exp_minus_1)

text \<open>
  The three fields of the packed colour do not overlap, so the sums of the source are
  bitwise disjunctions, and the masks on the widened channels select the top bits of the
  8-bit channels.
\<close>

lemma RGBATo565_layout:
  "RGBATo565 c =
     push_bit 8 (ucast (R c) AND 0xF8) OR push_bit 3 (ucast (G c) AND 0xFC) OR drop_bit 3 (ucast (B c))"
proof -
  define r :: "32 word" where "r = ucast (R c) OR push_bit 8 (ucast (R c))"
  define g :: "32 word" where "g = ucast (G c) OR push_bit 8 (ucast (G c))"
  define b :: "32 word" where "b = ucast (B c) OR push_bit 8 (ucast (B c))"
  have rg: "(r AND 0xF800) + drop_bit 5 (g AND 0xFC00) = (r AND 0xF800) OR drop_bit 5 (g AND 0xFC00)"
    unfolding mask_F800 mask_FC00
    by (rule disjunctive_add_eq_or, rule bit_eqI)
       (auto simp add: bit_simps r_def g_def dest: bit_imp_le_length)
  have rgb: "((r AND 0xF800) OR drop_bit 5 (g AND 0xFC00)) + drop_bit 11 (b AND 0xF800)
      = ((r AND 0xF800) OR drop_bit 5 (g AND 0xFC00)) OR drop_bit 11 (b AND 0xF800)"
    unfolding mask_F800 mask_FC00
    by (rule disjunctive_add_eq_or, rule bit_eqI)
       (auto simp add: bit_simps r_def g_def b_def dest: bit_imp_le_length)
  have "RGBATo565 c = ucast ((r AND 0xF800) + drop_bit 5 (g AND 0xFC00) + drop_bit 11 (b AND 0xF800))"
    unfolding RGBATo565_def RGBA_def Let_def prod.case r_def g_def b_def ..
  also have "\<dots> = ucast (((r AND 0xF800) OR drop_bit 5 (g AND 0xFC00)) OR drop_bit 11 (b AND 0xF800))"
    by (simp only: rg rgb)
  also have "\<dots> = push_bit 8 (ucast (R c) AND 0xF8) OR push_bit 3 (ucast (G c) AND 0xFC) OR drop_bit 3 (ucast (B c))"
    unfolding mask_F800 mask_FC00 mask_F8 mask_FC
    by (rule bit_eqI) (auto simp add: bit_simps r_def g_def b_def dest: bit_imp_le_length)
  finally show ?thesis .
qed

text \<open>
  Claim C3. For all 8-bit channels \<open>r\<close>, \<open>g\<close>, \<open>b\<close> and any alpha \<open>a\<close>, \<open>RGBATo565\<close> returns
  the 16-bit value \<open>((r & 0xF8) << 8) | ((g & 0xFC) << 3) | (b >> 3)\<close>, the channels widened
  to 16 bits. It is a function of the colour alone, defined on every colour. Black packs
  to \<open>0x0000\<close>, white to \<open>0xFFFF\<close>, red to \<open>0xF800\<close>, green to \<open>0x07E0\<close> and blue to
  \<open>0x001F\<close>.
\<close>

theorem RGBATo565_packs:
  "RGBATo565 \<lparr>R = r, G = g, B = b, A = a\<rparr> =
     push_bit 8 (ucast r AND 0xF8) OR push_bit 3 (ucast g AND 0xFC) OR drop_bit 3 (ucast b)
   \<and> RGBATo565 \<lparr>R = 0, G = 0, B = 0, A = a\<rparr> = 0x0000
   \<and> RGBATo565 \<lparr>R = 255, G = 255, B = 255, A = a\<rparr> = 0xFFFF
   \<and> RGBATo565 \<lparr>R = 255, G = 0, B = 0, A = a\<rparr> = 0xF800
   \<and> RGBATo565 \<lparr>R = 0, G = 255, B = 0, A = a\<rparr> = 0x07E0
   \<and> RGBATo565 \<lparr>R = 0, G = 0, B = 255, A = a\<rparr> = 0x001F"
proof -
  have "RGBATo565 \<lparr>R = r, G = g, B = b, A = a\<rparr> =
     push_bit 8 (ucast r AND 0xF8) OR push_bit 3 (ucast g AND 0xFC) OR drop_bit 3 (ucast b)"
    using RGBATo565_layout [of "\<lparr>R = r, G = g, B = b, A = a\<rparr>"] by simp
  moreover have "RGBATo565 \<lparr>R = 0, G = 0, B = 0, A = a\<rparr> = 0x0000"
    by (simp add: RGBATo565_def RGBA_def Let_def)
  moreover have "RGBATo565 \<lparr>R = 255, G = 255, B = 255, A = a\<rparr> = 0xFFFF"
    by (simp add: RGBATo565_def RGBA_def Let_def)
  moreover have "RGBATo565 \<lparr>R = 255, G = 0, B = 0, A = a\<rparr> = 0xF800"
    by (simp add: RGBATo565_def RGBA_def Let_def)
  moreover have "RGBATo565 \<lparr>R = 0, G = 255, B = 0, A = a\<rparr> = 0x07E0"
    by (simp add: RGBATo565_def RGBA_def Let_def)
  moreover have "RGBATo565 \<lparr>R = 0, G = 0, B = 255, A = a\<rparr> = 0x001F"
    by (simp add: RGBATo565_def RGBA_def Let_def)
  ultimately show ?thesis by blast
qed

section \<open>Runs in which no call fails\<close>

lemma sendData_loop_short:
  "c \<noteq> [] \<Longrightarrow> length c \<le> ChunkSize \<Longrightarrow> sendData_loop env d c 0 tr = conn_Tx env (conn d) c tr"
  by (subst sendData_loop.simps, subst sendData_loop.simps [of _ _ _ "0 + ChunkSize"])
     (auto simp: slice_def Let_def split: prod.splits option.splits)

lemma sendData_short:
  "c \<noteq> [] \<Longrightarrow> length c \<le> ChunkSize \<Longrightarrow>
   sendData env d c tr =
     (case pin_Out env (dc d) High tr of
        (tr1, Some err) \<Rightarrow> (tr1, Some err)
      | (tr1, None) \<Rightarrow> conn_Tx env (conn d) c tr1)"
  by (simp add: sendData_def sendData_loop_short split: prod.splits option.splits)

lemma sendCommand_ok:
  "sendCommand no_failure d c tr = (tr @ [(PinOut (dc d) Low, None), (ConnTx (conn d) c, None)], None)"
  by (simp add: sendCommand_def pin_Out_def conn_Tx_def no_failure_def)

lemma sendData_short_ok:
  "c \<noteq> [] \<Longrightarrow> length c \<le> ChunkSize \<Longrightarrow>
   sendData no_failure d c tr = (tr @ [(PinOut (dc d) High, None), (ConnTx (conn d) c, None)], None)"
  by (simp add: sendData_short pin_Out_def conn_Tx_def no_failure_def)

text \<open>One step of \<open>sendBatch\<close> on a command whose parameters fit one chunk.\<close>

lemma sendBatch_Cons_ok:
  "sendBatch no_failure d (cad # commands) tr =
     (if data cad = [] then
        sendBatch no_failure d commands
          (tr @ [(PinOut (dc d) Low, None), (ConnTx (conn d) (cmd cad), None)])
      else if length (data cad) \<le> ChunkSize then
        sendBatch no_failure d commands
          ((tr @ [(PinOut (dc d) Low, None), (ConnTx (conn d) (cmd cad), None),
                 (PinOut (dc d) High, None), (ConnTx (conn d) (data cad), None)])
           @ (if sleep cad > 0 then [(TimeSleep (sleep cad), None)] else []))
      else sendBatch no_failure d (cad # commands) tr)"
  by (simp add: sendCommand_ok sendData_short_ok time_Sleep_def)

section \<open>The addressing window at the default geometry\<close>

text \<open>
  Claim C4. The default geometry is width 80, height 160, left offset 26, top offset 1.
  With it, \<open>SetWindow(0, 0, 79, 159)\<close> sends column-address-set with the parameter bytes
  \<open>(0, 26, 0, 105)\<close>, then row-address-set with \<open>(0, 1, 0, 160)\<close>, then the memory-write
  opcode with no payload: the offsets are added to the four coordinates, and each is sent
  as two bytes, the high one first.
\<close>

theorem SetWindow_default_geometry:
  "DefaultOpts = \<lparr>Width = 80, Height = 160, OffsetLeft = 26, OffsetTop = 1\<rparr>
   \<and> SetWindow no_failure (d\<lparr>opts := DefaultOpts\<rparr>) 0 0 79 159 [] =
      ([(PinOut (dc d) Low, None), (ConnTx (conn d) [ST7735_CASET], None),
        (PinOut (dc d) High, None), (ConnTx (conn d) [0, 26, 0, 105], None),
        (PinOut (dc d) Low, None), (ConnTx (conn d) [ST7735_RASET], None),
        (PinOut (dc d) High, None), (ConnTx (conn d) [0, 1, 0, 160], None),
        (PinOut (dc d) Low, None), (ConnTx (conn d) [ST7735_RAMWR], None)], None)"
  by (simp add: SetWindow_def sendBatch_Cons_ok ChunkSize_def DefaultOpts_def wrap_int_def
      to_byte_def ST7735_COLS_def ST7735_ROWS_def ST7735_TFTWIDTH_def ST7735_TFTHEIGHT_def
      del: sendBatch.simps(2))

section \<open>The initialisation sequence\<close>

text \<open>
  Claim C7. For every panel geometry, \<open>Init\<close> emits one fixed sequence of opcodes and
  parameter bytes, in the order software reset, sleep-out, three frame-rate-control
  writes, display-inversion-control, five power-control writes, the inversion selection,
  memory-access-control, colour-mode, column-address-set, row-address-set, the two
  16-byte gamma tables, normal-display-on, display-on. The geometry \<open>opts d\<close> occurs in the
  parameter bytes of column-address-set and row-address-set and nowhere else.
\<close>

theorem Init_sequence:
  "Init no_failure d [] =
    (map (\<lambda>a. (a, None))
     [PinOut (dc d) Low, ConnTx (conn d) [ST7735_SWRESET],
      PinOut (dc d) Low, ConnTx (conn d) [ST7735_SLPOUT],
      PinOut (dc d) Low, ConnTx (conn d) [ST7735_FRMCTR1],
      PinOut (dc d) High, ConnTx (conn d) [0x01, 0x2C, 0x2D],
      PinOut (dc d) Low, ConnTx (conn d) [ST7735_FRMCTR2],
      PinOut (dc d) High, ConnTx (conn d) [0x01, 0x2C, 0x2D],
      PinOut (dc d) Low, ConnTx (conn d) [ST7735_FRMCTR3],
      PinOut (dc d) High, ConnTx (conn d) [0x01, 0x2C, 0x2D, 0x01, 0x2C, 0x2D],
      PinOut (dc d) Low, ConnTx (conn d) [ST7735_INVCTR],
      PinOut (dc d) High, ConnTx (conn d) [0x07],
      PinOut (dc d) Low, ConnTx (conn d) [ST7735_PWCTR1],
      PinOut (dc d) High, ConnTx (conn d) [0xA2, 0x02, 0x84],
      PinOut (dc d) Low, ConnTx (conn d) [ST7735_PWCTR2],
      PinOut (dc d) High, ConnTx (conn d) [0x0A, 0x00],
      PinOut (dc d) Low, ConnTx (conn d) [ST7735_PWCTR4],
      PinOut (dc d) High, ConnTx (conn d) [0x8A, 0x2A],
      PinOut (dc d) Low, ConnTx (conn d) [ST7735_PWCTR5],
      PinOut (dc d) High, ConnTx (conn d) [0x8A, 0xEE],
      PinOut (dc d) Low, ConnTx (conn d) [ST7735_VMCTR1],
      PinOut (dc d) High, ConnTx (conn d) [0x0E],
      PinOut (dc d) Low, ConnTx (conn d) [ST7735_INVON],
      PinOut (dc d) Low, ConnTx (conn d) [ST7735_MADCTL],
      PinOut (dc d) High, ConnTx (conn d) [0xC8],
      PinOut (dc d) Low, ConnTx (conn d) [ST7735_COLMOD],
      PinOut (dc d) High, ConnTx (conn d) [0x05],
      PinOut (dc d) Low, ConnTx (conn d) [ST7735_CASET],
      PinOut (dc d) High,
      ConnTx (conn d) [0x00, OffsetLeft (opts d), 0x00, Width (opts d) + OffsetLeft (opts d) - 1],
      PinOut (dc d) Low, ConnTx (conn d) [ST7735_RASET],
      PinOut (dc d) High,
      ConnTx (conn d) [0x00, OffsetTop (opts d), 0x00, Height (opts d) + OffsetTop (opts d) - 1],
      PinOut (dc d) Low, ConnTx (conn d) [ST7735_GMCTRP1],
      PinOut (dc d) High,
      ConnTx (conn d) [0x02, 0x1c, 0x07, 0x12, 0x37, 0x32, 0x29, 0x2d, 0x29, 0x25, 0x2B, 0x39, 0x00,
               0x01, 0x03, 0x10],
      PinOut (dc d) Low, ConnTx (conn d) [ST7735_GMCTRN1],
      PinOut (dc d) High,
      ConnTx (conn d) [0x03, 0x1d, 0x07, 0x06, 0x2E, 0x2C, 0x29, 0x2D, 0x2E, 0x2E, 0x37, 0x3F, 0x00,
               0x00, 0x02, 0x10],
      PinOut (dc d) Low, ConnTx (conn d) [ST7735_NORON],
      PinOut (dc d) Low, ConnTx (conn d) [ST7735_DISPON]], None)"
  by (simp add: Init_def Let_def sendBatch_Cons_ok ChunkSize_def Millisecond_def del: sendBatch.simps(2))

section \<open>Sleeps\<close>

lemma sleeps_append: "sleeps (xs @ ys) = sleeps xs @ sleeps ys"
  by (simp add: sleeps_def)

lemma sleeps_pin_Out: "sleeps (fst (pin_Out env p l tr)) = sleeps tr"
  by (simp add: pin_Out_def sleeps_def Let_def)

lemma sleeps_conn_Tx: "sleeps (fst (conn_Tx env k w tr)) = sleeps tr"
  by (simp add: conn_Tx_def sleeps_def Let_def)

lemma sleeps_sendCommand: "sleeps (fst (sendCommand env d c tr)) = sleeps tr"
  using sleeps_pin_Out [of env "dc d" Low tr] sleeps_conn_Tx [of env "conn d" c "fst (pin_Out env (dc d) Low tr)"]
  by (auto simp: sendCommand_def split: prod.splits option.splits)

lemma sleeps_sendData_loop: "sleeps (fst (sendData_loop env d c offset tr)) = sleeps tr"
proof (induction env d c offset tr rule: sendData_loop.induct)
  case (1 env d c offset tr)
  show ?case
  proof (cases "offset < length c")
    case False
    then show ?thesis by (simp add: sendData_loop.simps)
  next
    case True
    define w where "w = slice c offset (if offset + ChunkSize > length c then length c else offset + ChunkSize)"
    obtain tr1 r1 where tx: "conn_Tx env (conn d) w tr = (tr1, r1)"
      by (cases "conn_Tx env (conn d) w tr")
    have s1: "sleeps tr1 = sleeps tr"
      using sleeps_conn_Tx [of env "conn d" w tr] tx by simp
    show ?thesis
    proof (cases r1)
      case None
      have "sleeps (fst (sendData_loop env d c (offset + ChunkSize) tr1)) = sleeps tr1"
        using "1.IH" [OF True refl refl _ refl, of tr1] tx None w_def by simp
      then show ?thesis
        using True tx None s1 w_def by (subst sendData_loop.simps) (simp add: Let_def)
    next
      case (Some err)
      then show ?thesis
        using True tx s1 w_def by (subst sendData_loop.simps) (simp add: Let_def)
    qed
  qed
qed

lemma sleeps_sendData: "sleeps (fst (sendData env d c tr)) = sleeps tr"
  using sleeps_pin_Out [of env "dc d" High tr]
    sleeps_sendData_loop [of env d c 0 "fst (pin_Out env (dc d) High tr)"]
  by (auto simp: sendData_def split: prod.splits option.splits)

lemma sleeps_sendBatch_nodata:
  "\<forall>cad \<in> set commands. data cad = [] \<or> sleep cad \<le> 0 \<Longrightarrow>
   sleeps (fst (sendBatch env d commands tr)) = sleeps tr"
proof (induction commands arbitrary: tr)
  case Nil
  then show ?case by simp
next
  case (Cons cad commands)
  obtain tr1 r1 where c1: "sendCommand env d (cmd cad) tr = (tr1, r1)"
    by (cases "sendCommand env d (cmd cad) tr")
  have s1: "sleeps tr1 = sleeps tr"
    using sleeps_sendCommand [of env d "cmd cad" tr] c1 by simp
  obtain tr2 r2 where c2: "sendData env d (data cad) tr1 = (tr2, r2)"
    by (cases "sendData env d (data cad) tr1")
  have s2: "sleeps tr2 = sleeps tr"
    using sleeps_sendData [of env d "data cad" tr1] c2 s1 by simp
  have rest: "\<And>t. sleeps (fst (sendBatch env d commands t)) = sleeps t"
    using Cons by simp
  have nosleep: "data cad \<noteq> [] \<Longrightarrow> \<not> 0 < sleep cad"
    using Cons.prems by auto
  show ?case
    using c1 c2 s1 s2 rest nosleep
    by (cases r1; cases r2) (auto simp: time_Sleep_def sleeps_append)
qed

lemma sleeps_Nil_iff: "sleeps tr = [] \<longleftrightarrow> (\<forall>dur r. (TimeSleep dur, r) \<notin> set tr)"
proof
  assume e: "sleeps tr = []"
  show "\<forall>dur r. (TimeSleep dur, r) \<notin> set tr"
  proof (intro allI notI)
    fix dur r
    assume "(TimeSleep dur, r) \<in> set tr"
    then have "dur \<in> set (sleeps tr)"
      by (force simp: sleeps_def)
    with e show False by simp
  qed
next
  assume "\<forall>dur r. (TimeSleep dur, r) \<notin> set tr"
  then show "sleeps tr = []"
    by (auto simp: sleeps_def split: prod.splits action.splits)
qed

text \<open>
  Claim C1 says that \<open>Init\<close> sleeps 150 ms after the software reset, 500 ms after sleep-out
  and 100 ms after each of normal-display-on and display-on. The table of \<open>Init\<close> carries
  these four delays, each on a command with no parameter bytes, and \<open>sendBatch\<close> leaves the
  loop body with \<open>continue\<close> for a command with no parameter bytes, before it reaches
  \<open>time.Sleep\<close>. So no run of \<open>Init\<close> sleeps, whatever the device and whatever the calls
  return.
\<close>

theorem Init_never_sleeps: "(TimeSleep dur, r) \<notin> set (fst (Init env d []))"
proof -
  have "sleeps (fst (Init env d [])) = sleeps ([] :: 'a event list)"
    unfolding Init_def Let_def by (rule sleeps_sendBatch_nodata) simp
  then have "sleeps (fst (Init env d [])) = []"
    by (simp add: sleeps_def)
  then show ?thesis
    by (simp add: sleeps_Nil_iff)
qed

section \<open>The backlight\<close>

text \<open>
  Claim C9. \<open>SetBacklight\<close> returns no error, for every handle and either argument. With
  no backlight pin it makes no call at all: the trace is unchanged. With a backlight pin
  it makes one call, \<open>Out\<close> on that pin with \<open>High\<close> for \<open>true\<close> and \<open>Low\<close> for \<open>false\<close>, and
  whatever that call returns is dropped.
\<close>

theorem SetBacklight_calls:
  "SetBacklight env (d\<lparr>backlight := None\<rparr>) v tr = tr
   \<and> SetBacklight env (d\<lparr>backlight := Some bl\<rparr>) v tr =
       tr @ [(PinOut bl (if v then High else Low), env tr (PinOut bl (if v then High else Low)))]"
  by (simp add: SetBacklight_def pin_Out_def Let_def)

section \<open>Chunked transfers\<close>

lemma lt_chunks_iff: "0 < n \<Longrightarrow> k < (L + (n - 1)) div n \<longleftrightarrow> k * n < (L::nat)"
proof -
  assume n: "0 < n"
  have "k < (L + (n - 1)) div n \<longleftrightarrow> Suc k \<le> (L + (n - 1)) div n"
    by auto
  also have "\<dots> \<longleftrightarrow> Suc k * n \<le> L + (n - 1)"
    using n by (simp only: less_eq_div_iff_mult_less_eq)
  also have "\<dots> \<longleftrightarrow> k * n < L"
    using n by auto
  finally show ?thesis .
qed

lemma ChunkSize_pos: "0 < ChunkSize"
  by (simp add: ChunkSize_def)

lemma sendData_loop_ok:
  "sendData_loop (no_failure :: 'e env) d c (n * ChunkSize) tr =
     (tr @ map (\<lambda>i. (ConnTx (conn d) (take ChunkSize (drop (i * ChunkSize) c)), None))
             [n..<(length c + (ChunkSize - 1)) div ChunkSize], None)"
proof (induction "(length c + (ChunkSize - 1)) div ChunkSize - n" arbitrary: n tr)
  case 0
  then have "\<not> n * ChunkSize < length c"
    using lt_chunks_iff [OF ChunkSize_pos, of n "length c"] by simp
  moreover have "[n..<(length c + (ChunkSize - 1)) div ChunkSize] = []"
    using 0 by simp
  ultimately show ?case
    by (subst sendData_loop.simps) simp
next
  case (Suc k)
  then have lt: "n < (length c + (ChunkSize - 1)) div ChunkSize"
    by simp
  then have off: "n * ChunkSize < length c"
    using lt_chunks_iff [OF ChunkSize_pos, of n "length c"] by simp
  have step: "sendData_loop (no_failure :: 'e env) d c (n * ChunkSize) tr =
      sendData_loop no_failure d c (Suc n * ChunkSize)
        (tr @ [(ConnTx (conn d) (take ChunkSize (drop (n * ChunkSize) c)), None)])"
    using off
    by (subst sendData_loop.simps)
       (simp add: Let_def slice_def conn_Tx_def no_failure_def add.commute)
  have "k = (length c + (ChunkSize - 1)) div ChunkSize - Suc n"
    using Suc.hyps(2) by simp
  from Suc.hyps(1) [OF this]
  have IH: "sendData_loop (no_failure :: 'e env) d c (Suc n * ChunkSize) tr' =
     (tr' @ map (\<lambda>i. (ConnTx (conn d) (take ChunkSize (drop (i * ChunkSize) c)), None))
             [Suc n..<(length c + (ChunkSize - 1)) div ChunkSize], None)" for tr'
    by blast
  show ?case
    unfolding step IH upt_conv_Cons [OF lt] by simp
qed

lemma sendData_ok:
  "sendData no_failure d c tr =
     (tr @ (PinOut (dc d) High, None) #
        map (\<lambda>i. (ConnTx (conn d) (take ChunkSize (drop (i * ChunkSize) c)), None))
            [0..<(length c + (ChunkSize - 1)) div ChunkSize], None)"
  using sendData_loop_ok [of d c 0 "tr @ [(PinOut (dc d) High, None)]"]
  by (simp add: sendData_def pin_Out_def no_failure_def)

lemma chunk_length:
  "i < (length c + 4095) div 4096 \<Longrightarrow>
   length (take 4096 (drop (i * 4096) c)) =
     (if Suc i < (length c + 4095) div 4096 then 4096 else length c - i * 4096)"
  using lt_chunks_iff [of 4096 "Suc i" "length c"] lt_chunks_iff [of 4096 i "length c"]
  by (simp add: min_def; linarith)

lemma chunks_concat:
  "concat (map (\<lambda>i. take n (drop (i * n) c)) [0..<k]) = take (k * n) c"
proof (induction k)
  case 0
  then show ?case by simp
next
  case (Suc k)
  have "take (k * n) c @ take n (drop (k * n) c) = take (k * n + n) c"
    by (simp add: take_add)
  then show ?case
    using Suc by (simp add: add.commute)
qed

text \<open>
  Claim C6. \<open>sendData\<close> drives the select line high and then sends the payload in
  successive transactions of 4096 bytes: transaction \<open>i\<close> carries the bytes from position
  \<open>4096 * i\<close> on, at most 4096 of them. Every transaction but the last carries exactly 4096
  bytes, the last carries what remains, and together they carry the payload. A payload of
  4097 bytes goes out in two transactions, the second carrying its last byte alone.
\<close>

theorem sendData_chunks:
  "ChunkSize = 4096
   \<and> sendData (no_failure :: 'e env) d c [] =
       ((PinOut (dc d) High, None) #
        map (\<lambda>i. (ConnTx (conn d) (take 4096 (drop (i * 4096) c)), None))
            [0..<(length c + 4095) div 4096], None)
   \<and> (\<forall>i < (length c + 4095) div 4096.
         length (take 4096 (drop (i * 4096) c)) =
           (if Suc i < (length c + 4095) div 4096 then 4096 else length c - i * 4096))
   \<and> concat (map (\<lambda>i. take 4096 (drop (i * 4096) c)) [0..<(length c + 4095) div 4096]) = c
   \<and> (length c = 4097 \<longrightarrow>
        sendData (no_failure :: 'e env) d c [] =
          ([(PinOut (dc d) High, None),
            (ConnTx (conn d) (take 4096 c), None),
            (ConnTx (conn d) [c ! 4096], None)], None))"
proof -
  have a: "sendData (no_failure :: 'e env) d c [] =
       ((PinOut (dc d) High, None) #
        map (\<lambda>i. (ConnTx (conn d) (take 4096 (drop (i * 4096) c)), None))
            [0..<(length c + 4095) div 4096], None)"
    using sendData_ok [of d c "[]"] by (simp add: ChunkSize_def)
  have b: "\<forall>i < (length c + 4095) div 4096.
         length (take 4096 (drop (i * 4096) c)) =
           (if Suc i < (length c + 4095) div 4096 then 4096 else length c - i * 4096)"
    using chunk_length by blast
  have "length c \<le> (length c + 4095) div 4096 * 4096"
    using lt_chunks_iff [of 4096 "(length c + 4095) div 4096" "length c"] by simp
  then have c: "concat (map (\<lambda>i. take 4096 (drop (i * 4096) c)) [0..<(length c + 4095) div 4096]) = c"
    by (simp add: chunks_concat)
  have e: "sendData (no_failure :: 'e env) d c [] =
          ([(PinOut (dc d) High, None),
            (ConnTx (conn d) (take 4096 c), None),
            (ConnTx (conn d) [c ! 4096], None)], None)" if len: "length c = 4097"
  proof -
    have "[0..<(length c + 4095) div 4096] = [0, 1]"
      using len by (simp add: upt_conv_Cons)
    moreover have "take 4096 (drop 4096 c) = [c ! 4096]"
      using len by (simp add: take_Suc_conv_app_nth drop_all Cons_nth_drop_Suc [symmetric])
    ultimately show ?thesis
      using a by simp
  qed
  from e have e': "length c = 4097 \<longrightarrow>
        sendData (no_failure :: 'e env) d c [] =
          ([(PinOut (dc d) High, None),
            (ConnTx (conn d) (take 4096 c), None),
            (ConnTx (conn d) [c ! 4096], None)], None)"
    by blast
  have z: "ChunkSize = 4096"
    by (simp add: ChunkSize_def)
  show ?thesis
    using z a b c e' by blast
qed

theorem sendData_chunks_witness:
  "length (replicate 4097 (7 :: byte)) = 4097
   \<and> sendData (no_failure :: unit env)
dev0 (replicate 4097 7) [] =
       ([(PinOut 9 High, None), (ConnTx 0 (replicate 4096 7), None), (ConnTx 0 [7], None)], None)"
  using sendData_chunks [of "dev0" "replicate 4097 7", where ?'e = unit, THEN conjunct2, THEN conjunct2, THEN conjunct2,
      THEN conjunct2]
  by (simp add: dev0_def)

section \<open>Failures\<close>

lemma stops_at_failure_single: "stops_at_failure [(a, r)] r"
  by (cases r) (simp_all add: stops_at_failure_def)

lemma stops_at_failure_append:
  "stops_at_failure evs1 None \<Longrightarrow> stops_at_failure evs2 r \<Longrightarrow> stops_at_failure (evs1 @ evs2) r"
  by (cases r) (auto simp: stops_at_failure_def butlast_append)

lemma aborting_return: "aborting (\<lambda>tr. (tr, None))"
  by (simp add: aborting_def stops_at_failure_def)

lemma aborting_bind:
  assumes f: "aborting f" and g: "aborting g"
  shows "aborting (\<lambda>tr. case f tr of (tr1, Some err) \<Rightarrow> (tr1, Some err) | (tr1, None) \<Rightarrow> g tr1)"
  unfolding aborting_def
proof
  fix tr
  obtain tr1 r1 where ftr: "f tr = (tr1, r1)"
    by (cases "f tr")
  from f obtain evs1 where e1: "tr1 = tr @ evs1" "stops_at_failure evs1 r1"
    unfolding aborting_def using ftr by (metis fst_conv snd_conv)
  show "\<exists>evs. fst (case f tr of (tr1, Some err) \<Rightarrow> (tr1, Some err) | (tr1, None) \<Rightarrow> g tr1) = tr @ evs \<and>
         stops_at_failure evs (snd (case f tr of (tr1, Some err) \<Rightarrow> (tr1, Some err) | (tr1, None) \<Rightarrow> g tr1))"
  proof (cases r1)
    case (Some err)
    then show ?thesis
      using ftr e1 by auto
  next
    case None
    from g obtain evs2 where e2: "fst (g tr1) = tr1 @ evs2" "stops_at_failure evs2 (snd (g tr1))"
      unfolding aborting_def by blast
    have "stops_at_failure (evs1 @ evs2) (snd (g tr1))"
      using e1(2) e2(2) None by (simp add: stops_at_failure_append)
    then show ?thesis
      using ftr None e1(1) e2(1) by auto
  qed
qed

lemma aborting_after_sleep:
  assumes g: "aborting g"
  shows "aborting (\<lambda>tr. g (time_Sleep dur tr))"
  unfolding aborting_def
proof
  fix tr
  from g obtain evs where e: "fst (g (time_Sleep dur tr)) = time_Sleep dur tr @ evs"
      "stops_at_failure evs (snd (g (time_Sleep dur tr)))"
    unfolding aborting_def by blast
  have "stops_at_failure ([(TimeSleep dur, None)] @ evs) (snd (g (time_Sleep dur tr)))"
    by (rule stops_at_failure_append [OF stops_at_failure_single e(2)])
  then show "\<exists>evs. fst (g (time_Sleep dur tr)) = tr @ evs \<and> stops_at_failure evs (snd (g (time_Sleep dur tr)))"
    using e(1) by (auto simp: time_Sleep_def)
qed

lemma aborting_pin_Out: "aborting (pin_Out env p l)"
  by (simp add: aborting_def pin_Out_def Let_def stops_at_failure_single)

lemma aborting_conn_Tx: "aborting (conn_Tx env k w)"
  by (simp add: aborting_def conn_Tx_def Let_def stops_at_failure_single)

lemma aborting_sendCommand: "aborting (sendCommand env d c)"
proof -
  have "sendCommand env d c =
      (\<lambda>tr. case pin_Out env (dc d) Low tr of (tr1, Some err) \<Rightarrow> (tr1, Some err)
                                             | (tr1, None) \<Rightarrow> conn_Tx env (conn d) c tr1)"
    by (rule ext) (simp add: sendCommand_def)
  then show ?thesis
    by (simp only:) (rule aborting_bind [OF aborting_pin_Out aborting_conn_Tx])
qed

lemma aborting_sendData_loop: "aborting (sendData_loop env d c offset)"
proof (induction "length c - offset" arbitrary: offset rule: less_induct)
  case less
  show ?case
  proof (cases "offset < length c")
    case False
    then have "sendData_loop env d c offset = (\<lambda>tr. (tr, None))"
      by (intro ext) (simp add: sendData_loop.simps)
    then show ?thesis
      by (simp add: aborting_return)
  next
    case True
    define w where "w = slice c offset (if offset + ChunkSize > length c then length c else offset + ChunkSize)"
    have "length c - (offset + ChunkSize) < length c - offset"
      using True by (simp add: ChunkSize_def)
    then have rest: "aborting (sendData_loop env d c (offset + ChunkSize))"
      by (rule less)
    have "sendData_loop env d c offset =
        (\<lambda>tr. case conn_Tx env (conn d) w tr of (tr1, Some err) \<Rightarrow> (tr1, Some err)
                 | (tr1, None) \<Rightarrow> sendData_loop env d c (offset + ChunkSize) tr1)"
      using True by (intro ext) (subst sendData_loop.simps, simp add: Let_def w_def)
    then show ?thesis
      by (simp only:) (rule aborting_bind [OF aborting_conn_Tx rest])
  qed
qed

lemma aborting_sendData: "aborting (sendData env d c)"
proof -
  have "sendData env d c =
      (\<lambda>tr. case pin_Out env (dc d) High tr of (tr1, Some err) \<Rightarrow> (tr1, Some err)
                                              | (tr1, None) \<Rightarrow> sendData_loop env d c 0 tr1)"
    by (rule ext) (simp add: sendData_def)
  then show ?thesis
    by (simp only:) (rule aborting_bind [OF aborting_pin_Out aborting_sendData_loop])
qed

lemma aborting_sendBatch: "aborting (sendBatch env d commands)"
proof (induction commands)
  case Nil
  have "sendBatch env d [] = (\<lambda>tr. (tr, None))"
    by (rule ext) simp
  then show ?case
    by (simp add: aborting_return)
next
  case (Cons cad commands)
  define after_data where "after_data =
    (\<lambda>tr2. sendBatch env d commands (if sleep cad > 0 then time_Sleep (sleep cad) tr2 else tr2))"
  define after_cmd where "after_cmd =
    (\<lambda>tr1. if length (data cad) = 0 then sendBatch env d commands tr1
            else (case sendData env d (data cad) tr1 of
                    (tr2, Some err) \<Rightarrow> (tr2, Some err)
                  | (tr2, None) \<Rightarrow> after_data tr2))"
  have ad: "aborting after_data"
    using Cons aborting_after_sleep [OF Cons, of "sleep cad"]
    by (cases "sleep cad > 0") (simp_all add: after_data_def)
  have ac: "aborting after_cmd"
  proof (cases "length (data cad) = 0")
    case True
    then have "after_cmd = sendBatch env d commands"
      by (intro ext) (simp add: after_cmd_def)
    then show ?thesis
      using Cons by simp
  next
    case False
    then have "after_cmd =
        (\<lambda>tr1. case sendData env d (data cad) tr1 of
                    (tr2, Some err) \<Rightarrow> (tr2, Some err)
                  | (tr2, None) \<Rightarrow> after_data tr2)"
      by (intro ext) (simp add: after_cmd_def)
    then show ?thesis
      by (simp only:) (rule aborting_bind [OF aborting_sendData ad])
  qed
  have "sendBatch env d (cad # commands) =
      (\<lambda>tr. case sendCommand env d (cmd cad) tr of (tr1, Some err) \<Rightarrow> (tr1, Some err)
               | (tr1, None) \<Rightarrow> after_cmd tr1)"
    unfolding after_cmd_def after_data_def by (rule ext) (simp only: sendBatch.simps)
  then show ?case
    by (simp only:) (rule aborting_bind [OF aborting_sendCommand ac])
qed

lemma stops_at_failure_index:
  assumes "stops_at_failure evs r" and "k < length evs" and "snd (evs ! k) = Some err"
  shows "Suc k = length evs \<and> r = Some err"
proof (cases r)
  case None
  then show ?thesis
    using assms by (auto simp: stops_at_failure_def)
next
  case (Some err')
  then have ne: "evs \<noteq> []" and bl: "\<forall>ev \<in> set (butlast evs). snd ev = None"
    and la: "snd (last evs) = Some err'"
    using assms(1) by (simp_all add: stops_at_failure_def)
  have "\<not> k < length evs - 1"
  proof
    assume "k < length evs - 1"
    then have kb: "k < length (butlast evs)"
      by simp
    then have "butlast evs ! k \<in> set (butlast evs)"
      by (rule nth_mem)
    moreover have "butlast evs ! k = evs ! k"
      using kb by (rule nth_butlast)
    ultimately have "evs ! k \<in> set (butlast evs)"
      by simp
    with bl assms(3) show False by auto
  qed
  with assms(2) have k: "Suc k = length evs" by simp
  then have km: "length evs - 1 = k"
    by simp
  have "last evs = evs ! (length evs - 1)"
    using ne by (rule last_conv_nth)
  then have "last evs = evs ! k"
    by (simp only: km)
  with la assms(3) Some k show ?thesis by simp
qed

lemma aborting_index:
  assumes "aborting f" and "f [] = (tr, r)" and "k < length tr" and "snd (tr ! k) = Some err"
  shows "Suc k = length tr \<and> r = Some err"
proof -
  from assms(1,2) have "stops_at_failure tr r"
    unfolding aborting_def by (metis append_Nil fst_conv snd_conv)
  then show ?thesis
    using assms(3,4) by (rule stops_at_failure_index)
qed

text \<open>
  Claim C8. In a run of \<open>sendBatch\<close>, of \<open>sendData\<close> or of \<open>Init\<close>, if call number \<open>k\<close> of the
  run failed, then it is the last call of the run, so nothing is sent after it and it is
  not tried again, and the run returns the error of that call.
\<close>

theorem abort_at_first_failure:
  "(sendBatch env d commands [] = (tr, r) \<and> k < length tr \<and> snd (tr ! k) = Some err
      \<longrightarrow> Suc k = length tr \<and> r = Some err)
   \<and> (sendData env d c [] = (tr', r') \<and> k' < length tr' \<and> snd (tr' ! k') = Some err'
      \<longrightarrow> Suc k' = length tr' \<and> r' = Some err')
   \<and> (Init env d [] = (tr'', r'') \<and> k'' < length tr'' \<and> snd (tr'' ! k'') = Some err''
      \<longrightarrow> Suc k'' = length tr'' \<and> r'' = Some err'')"
  using aborting_index [OF aborting_sendBatch, where tr = tr and r = r and k = k and err = err]
    aborting_index [OF aborting_sendData, where tr = tr' and r = r' and k = k' and err = err']
    aborting_index [OF aborting_sendBatch, where tr = tr'' and r = r'' and k = k'' and err = err'']
  by (auto simp: Init_def Let_def simp del: sendBatch.simps)

lemma sendBatch_fail_third: "sendBatch fail_third dev0
        [\<lparr>cmd = [ST7735_CASET], data = [0, 26, 0, 105], sleep = 0\<rparr>,
         \<lparr>cmd = [ST7735_RAMWR], data = [], sleep = 0\<rparr>] [] =
       ([(PinOut 9 Low, None), (ConnTx 0 [ST7735_CASET], None), (PinOut 9 High, Some 5)], Some 5)"
  by (simp add: Let_def sendCommand_def sendData_def pin_Out_def conn_Tx_def fail_third_def dev0_def)

lemma sendData_fail_third: "sendData fail_third dev0 (replicate 9000 7) [] =
       ([(PinOut 9 High, None), (ConnTx 0 (replicate 4096 7), None),
         (ConnTx 0 (replicate 4096 7), Some 5)], Some 5)"
  by (simp add: Let_def sendData_def sendData_loop.simps pin_Out_def conn_Tx_def fail_third_def dev0_def
      ChunkSize_def slice_def)

lemma Init_fail_third: "Init fail_third dev0 [] =
       ([(PinOut 9 Low, None), (ConnTx 0 [ST7735_SWRESET], None), (PinOut 9 Low, Some 5)], Some 5)"
  by (simp add: Init_def Let_def sendCommand_def pin_Out_def conn_Tx_def fail_third_def dev0_def)

theorem abort_at_first_failure_witness:
  "(sendBatch fail_third dev0
        [\<lparr>cmd = [ST7735_CASET], data = [0, 26, 0, 105], sleep = 0\<rparr>,
         \<lparr>cmd = [ST7735_RAMWR], data = [], sleep = 0\<rparr>] [] =
       ([(PinOut 9 Low, None), (ConnTx 0 [ST7735_CASET], None), (PinOut 9 High, Some 5)], Some 5)
    \<and> (2::nat) < length [(PinOut 9 Low, None :: nat option), (ConnTx 0 [ST7735_CASET], None), (PinOut 9 High, Some 5)]
    \<and> snd ([(PinOut 9 Low, None), (ConnTx 0 [ST7735_CASET], None), (PinOut 9 High, Some (5::nat))] ! 2) = Some 5)
   \<and> (sendData fail_third dev0 (replicate 9000 7) [] =
       ([(PinOut 9 High, None), (ConnTx 0 (replicate 4096 7), None),
         (ConnTx 0 (replicate 4096 7), Some 5)], Some 5)
    \<and> (2::nat) < length [(PinOut 9 High, None :: nat option), (ConnTx 0 (replicate 4096 7), None),
         (ConnTx 0 (replicate 4096 7), Some 5)]
    \<and> snd ([(PinOut 9 High, None), (ConnTx 0 (replicate 4096 7), None),
         (ConnTx 0 (replicate 4096 7), Some (5::nat))] ! 2) = Some 5)
   \<and> (Init fail_third dev0 [] =
       ([(PinOut 9 Low, None), (ConnTx 0 [ST7735_SWRESET], None), (PinOut 9 Low, Some 5)], Some 5)
    \<and> (2::nat) < length [(PinOut 9 Low, None :: nat option), (ConnTx 0 [ST7735_SWRESET], None), (PinOut 9 Low, Some 5)]
    \<and> snd ([(PinOut 9 Low, None), (ConnTx 0 [ST7735_SWRESET], None), (PinOut 9 Low, Some (5::nat))] ! 2) = Some 5)"
  using abort_at_first_failure [of fail_third dev0
      "[\<lparr>cmd = [ST7735_CASET], data = [0, 26, 0, 105], sleep = 0\<rparr>,
        \<lparr>cmd = [ST7735_RAMWR], data = [], sleep = 0\<rparr>]"
      "[(PinOut 9 Low, None), (ConnTx 0 [ST7735_CASET], None), (PinOut 9 High, Some 5)]" "Some 5" 2 5
      "replicate 9000 7"
      "[(PinOut 9 High, None), (ConnTx 0 (replicate 4096 7), None), (ConnTx 0 (replicate 4096 7), Some 5)]"
      "Some 5" 2 5
      "[(PinOut 9 Low, None), (ConnTx 0 [ST7735_SWRESET], None), (PinOut 9 Low, Some 5)]" "Some 5" 2 5]
    sendBatch_fail_third sendData_fail_third Init_fail_third
  by simp

section \<open>Arithmetic of \<open>int\<close> and \<open>byte\<close>\<close>

lemma wrap_int_id: "- (2 ^ 63) \<le> v \<Longrightarrow> v < 2 ^ 63 \<Longrightarrow> wrap_int v = v"
  by (simp add: wrap_int_def signed_take_bit_int_eq_self)

lemma wrap_int_eq: "wrap_int v = (v + 2 ^ 63) mod 2 ^ 64 - 2 ^ 63"
  by (simp add: wrap_int_def signed_take_bit_eq_take_bit_shift take_bit_eq_mod)

lemma wrap_int_range: "- (2 ^ 63) \<le> wrap_int v" "wrap_int v < 2 ^ 63"
  using signed_take_bit_int_greater_eq_minus_exp [of 63 v] signed_take_bit_int_less_exp [of 63 v]
  by (simp_all add: wrap_int_def)

lemma wrap_int_shift: "wrap_int (v + k * 2 ^ 64) = wrap_int v"
proof -
  have "v + k * 2 ^ 64 + 2 ^ 63 = (v + 2 ^ 63) + k * 2 ^ 64"
    by (simp only: add.assoc add.commute [of "k * 2 ^ 64"])
  then have "(v + k * 2 ^ 64 + 2 ^ 63) mod 2 ^ 64 = (v + 2 ^ 63) mod 2 ^ 64"
    by (simp only: mod_mult_self1 mod_mult_self2)
  then show ?thesis
    by (simp only: wrap_int_eq)
qed

lemma wrap_int_ex: "\<exists>k. wrap_int v = v + k * 2 ^ 64"
proof -
  have "(v + 2 ^ 63) mod 2 ^ 64 = (v + 2 ^ 63) - (v + 2 ^ 63) div 2 ^ 64 * 2 ^ 64"
    by (simp add: minus_div_mult_eq_mod)
  then have "wrap_int v = v + (- ((v + 2 ^ 63) div 2 ^ 64)) * 2 ^ 64"
    by (simp add: wrap_int_eq)
  then show ?thesis by blast
qed

lemma wrap_int_small: "- 1 \<le> v \<Longrightarrow> v \<le> 65535 \<Longrightarrow> wrap_int v = v"
  by (rule wrap_int_id) simp_all

lemma uint_to_byte: "uint (to_byte v) = v mod 256"
  by (simp add: to_byte_def uint_word_of_int)

lemma uint_high_byte: "0 \<le> v \<Longrightarrow> v \<le> 65535 \<Longrightarrow> uint (to_byte (drop_bit 8 v)) = v div 256"
proof -
  assume a: "0 \<le> v" "v \<le> 65535"
  then have "0 \<le> v div 256" "v div 256 < 256"
    by auto
  then show ?thesis
    by (simp add: uint_to_byte drop_bit_eq_div)
qed

lemma high_byte_zero_iff: "0 \<le> v \<Longrightarrow> v \<le> 65535 \<Longrightarrow> to_byte (drop_bit 8 v) = 0 \<longleftrightarrow> v < 256"
proof -
  assume a: "0 \<le> v" "v \<le> 65535"
  have "to_byte (drop_bit 8 v) = 0 \<longleftrightarrow> uint (to_byte (drop_bit 8 v)) = 0"
    by (simp add: uint_0_iff)
  also have "\<dots> \<longleftrightarrow> v div 256 = 0"
    using a by (simp add: uint_high_byte)
  also have "\<dots> \<longleftrightarrow> v < 256"
    using a by auto
  finally show ?thesis .
qed

lemma to_byte_uint: "to_byte (uint w) = w"
  by (simp add: to_byte_def)

lemma to_byte_uint_high: "to_byte (drop_bit 8 (uint (w :: byte))) = 0"
proof -
  have "uint w < 256"
    using uint_bounded [of w] by simp
  then have "uint w div 256 = 0"
    by simp
  then show ?thesis
    by (simp add: to_byte_def drop_bit_eq_div)
qed

lemma to_byte_pred: "to_byte (uint w - 1) = w - 1"
  by (simp add: to_byte_def)

lemma to_byte_pred_high:
  "to_byte (drop_bit 8 (uint (w :: byte) - 1)) = (if w = 0 then 255 else 0)"
proof (cases "w = 0")
  case True
  then show ?thesis
    by (simp add: to_byte_def)
next
  case False
  then have "0 < uint w"
    by (simp add: word_neq_0_conv word_less_def)
  moreover have "uint w < 256"
    using uint_bounded [of w] by simp
  ultimately have "(uint w - 1) div 256 = 0"
    by simp
  then show ?thesis
    using False by (simp add: to_byte_def drop_bit_eq_div)
qed

lemma wrap_int_uint: "wrap_int (uint (w :: byte)) = uint w"
proof -
  have "uint w < 256" "0 \<le> uint w"
    using uint_bounded [of w] by simp_all
  then show ?thesis
    by (intro wrap_int_small) linarith+
qed

lemma wrap_int_uint_pred: "wrap_int (uint (w :: byte) - 1) = uint w - 1"
proof -
  have "uint w < 256" "0 \<le> uint w"
    using uint_bounded [of w] by simp_all
  then show ?thesis
    by (intro wrap_int_small) linarith+
qed

section \<open>The addressing window in general\<close>

lemma SetWindow_ok:
  "SetWindow (no_failure :: 'e env) d x0 y0 x1 y1 tr =
     (tr @ [(PinOut (dc d) Low, None), (ConnTx (conn d) [ST7735_CASET], None),
            (PinOut (dc d) High, None),
            (ConnTx (conn d)
               [to_byte (drop_bit 8 (wrap_int (x0 + uint (OffsetLeft (opts d))))),
                to_byte (wrap_int (x0 + uint (OffsetLeft (opts d)))),
                to_byte (drop_bit 8 (wrap_int (x1 + uint (OffsetLeft (opts d))))),
                to_byte (wrap_int (x1 + uint (OffsetLeft (opts d))))], None),
            (PinOut (dc d) Low, None), (ConnTx (conn d) [ST7735_RASET], None),
            (PinOut (dc d) High, None),
            (ConnTx (conn d)
               [to_byte (drop_bit 8 (wrap_int (y0 + uint (OffsetTop (opts d))))),
                to_byte (wrap_int (y0 + uint (OffsetTop (opts d)))),
                to_byte (drop_bit 8 (wrap_int (y1 + uint (OffsetTop (opts d))))),
                to_byte (wrap_int (y1 + uint (OffsetTop (opts d))))], None),
            (PinOut (dc d) Low, None), (ConnTx (conn d) [ST7735_RAMWR], None)], None)"
  by (simp add: SetWindow_def Let_def sendBatch_Cons_ok ChunkSize_def del: sendBatch.simps(2))

text \<open>
  Claim C10. When the four coordinates, each with its offset added, lie in \<open>0..65535\<close>,
  \<open>SetWindow\<close> sends each of them as its exact big-endian 16-bit encoding: read as
  numbers, the parameter bytes are the coordinate divided by 256 and the coordinate modulo
  256. The high byte is zero exactly when the coordinate is below 256, so coordinates from
  256 to 65535 are not truncated.
\<close>

theorem SetWindow_big_endian:
  "let cx0 = x0 + uint (OffsetLeft (opts d)); cx1 = x1 + uint (OffsetLeft (opts d));
       cy0 = y0 + uint (OffsetTop (opts d)); cy1 = y1 + uint (OffsetTop (opts d))
   in (\<forall>v \<in> {cx0, cx1, cy0, cy1}. 0 \<le> v \<and> v \<le> 65535) \<longrightarrow>
      (\<exists>col row.
         SetWindow (no_failure :: 'e env) d x0 y0 x1 y1 [] =
           ([(PinOut (dc d) Low, None), (ConnTx (conn d) [ST7735_CASET], None),
             (PinOut (dc d) High, None), (ConnTx (conn d) col, None),
             (PinOut (dc d) Low, None), (ConnTx (conn d) [ST7735_RASET], None),
             (PinOut (dc d) High, None), (ConnTx (conn d) row, None),
             (PinOut (dc d) Low, None), (ConnTx (conn d) [ST7735_RAMWR], None)], None)
         \<and> map uint col = [cx0 div 256, cx0 mod 256, cx1 div 256, cx1 mod 256]
         \<and> map uint row = [cy0 div 256, cy0 mod 256, cy1 div 256, cy1 mod 256]
         \<and> (col ! 0 = 0 \<longleftrightarrow> cx0 < 256) \<and> (col ! 2 = 0 \<longleftrightarrow> cx1 < 256)
         \<and> (row ! 0 = 0 \<longleftrightarrow> cy0 < 256) \<and> (row ! 2 = 0 \<longleftrightarrow> cy1 < 256))"
proof -
  define cx0 where "cx0 = x0 + uint (OffsetLeft (opts d))"
  define cx1 where "cx1 = x1 + uint (OffsetLeft (opts d))"
  define cy0 where "cy0 = y0 + uint (OffsetTop (opts d))"
  define cy1 where "cy1 = y1 + uint (OffsetTop (opts d))"
  have main: "\<exists>col row.
         SetWindow (no_failure :: 'e env) d x0 y0 x1 y1 [] =
           ([(PinOut (dc d) Low, None), (ConnTx (conn d) [ST7735_CASET], None),
             (PinOut (dc d) High, None), (ConnTx (conn d) col, None),
             (PinOut (dc d) Low, None), (ConnTx (conn d) [ST7735_RASET], None),
             (PinOut (dc d) High, None), (ConnTx (conn d) row, None),
             (PinOut (dc d) Low, None), (ConnTx (conn d) [ST7735_RAMWR], None)], None)
         \<and> map uint col = [cx0 div 256, cx0 mod 256, cx1 div 256, cx1 mod 256]
         \<and> map uint row = [cy0 div 256, cy0 mod 256, cy1 div 256, cy1 mod 256]
         \<and> (col ! 0 = 0 \<longleftrightarrow> cx0 < 256) \<and> (col ! 2 = 0 \<longleftrightarrow> cx1 < 256)
         \<and> (row ! 0 = 0 \<longleftrightarrow> cy0 < 256) \<and> (row ! 2 = 0 \<longleftrightarrow> cy1 < 256)"
    if r: "\<forall>v \<in> {cx0, cx1, cy0, cy1}. 0 \<le> v \<and> v \<le> 65535"
  proof -
    have b: "0 \<le> cx0" "cx0 \<le> 65535" "0 \<le> cx1" "cx1 \<le> 65535"
        "0 \<le> cy0" "cy0 \<le> 65535" "0 \<le> cy1" "cy1 \<le> 65535"
      using r by simp_all
    have w: "wrap_int cx0 = cx0" "wrap_int cx1 = cx1" "wrap_int cy0 = cy0" "wrap_int cy1 = cy1"
      using b by (simp_all add: wrap_int_id)
    let ?col = "[to_byte (drop_bit 8 cx0), to_byte cx0, to_byte (drop_bit 8 cx1), to_byte cx1]"
    let ?row = "[to_byte (drop_bit 8 cy0), to_byte cy0, to_byte (drop_bit 8 cy1), to_byte cy1]"
    have f1: "SetWindow (no_failure :: 'e env) d x0 y0 x1 y1 [] =
           ([(PinOut (dc d) Low, None), (ConnTx (conn d) [ST7735_CASET], None),
             (PinOut (dc d) High, None), (ConnTx (conn d) ?col, None),
             (PinOut (dc d) Low, None), (ConnTx (conn d) [ST7735_RASET], None),
             (PinOut (dc d) High, None), (ConnTx (conn d) ?row, None),
             (PinOut (dc d) Low, None), (ConnTx (conn d) [ST7735_RAMWR], None)], None)"
      using w by (simp add: SetWindow_ok cx0_def cx1_def cy0_def cy1_def)
    have f2: "map uint ?col = [cx0 div 256, cx0 mod 256, cx1 div 256, cx1 mod 256]"
      using b uint_high_byte [of cx0] uint_high_byte [of cx1] by (simp add: uint_to_byte)
    have f3: "map uint ?row = [cy0 div 256, cy0 mod 256, cy1 div 256, cy1 mod 256]"
      using b uint_high_byte [of cy0] uint_high_byte [of cy1] by (simp add: uint_to_byte)
    have f4: "?col ! 0 = 0 \<longleftrightarrow> cx0 < 256" and f5: "?col ! 2 = 0 \<longleftrightarrow> cx1 < 256"
      and f6: "?row ! 0 = 0 \<longleftrightarrow> cy0 < 256" and f7: "?row ! 2 = 0 \<longleftrightarrow> cy1 < 256"
      using b by (simp_all add: high_byte_zero_iff)
    show ?thesis
      by (rule exI [of _ ?col], rule exI [of _ ?row]) (intro conjI f1 f2 f3 f4 f5 f6 f7)
  qed
  then show ?thesis
    unfolding Let_def cx0_def cx1_def cy0_def cy1_def by blast
qed

theorem SetWindow_big_endian_witness:
  "[0 + uint (OffsetLeft (opts dev0)), 299 + uint (OffsetLeft (opts dev0)),
    0 + uint (OffsetTop (opts dev0)), 1000 + uint (OffsetTop (opts dev0))] = [26, 325, 1, 1001]
   \<and> (\<exists>col row.
         SetWindow (no_failure :: unit env) dev0 0 0 299 1000 [] =
           ([(PinOut 9 Low, None), (ConnTx 0 [ST7735_CASET], None),
             (PinOut 9 High, None), (ConnTx 0 col, None),
             (PinOut 9 Low, None), (ConnTx 0 [ST7735_RASET], None),
             (PinOut 9 High, None), (ConnTx 0 row, None),
             (PinOut 9 Low, None), (ConnTx 0 [ST7735_RAMWR], None)], None)
         \<and> map uint col = [0, 26, 1, 69]
         \<and> map uint row = [0, 1, 3, 233])"
  using SetWindow_big_endian [of 0 dev0 299 0 1000, where ?'e = unit]
  by (simp add: Let_def dev0_def DefaultOpts_def ST7735_COLS_def ST7735_ROWS_def
      ST7735_TFTWIDTH_def ST7735_TFTHEIGHT_def)
     (elim exE conjE, intro exI conjI, assumption+)

section \<open>Streaming an image\<close>

lemma DisplayImage_loop_y_eq:
  "DisplayImage_loop_y subImg bounds x y buf =
     buf @ concat (map (\<lambda>j. pixel_bytes (At subImg x j)) [y..Y (MaxP bounds) - 1])"
proof (induction "nat (Y (MaxP bounds) - y)" arbitrary: y buf)
  case 0
  then have "\<not> y < Y (MaxP bounds)" by simp
  then show ?case
    by (subst DisplayImage_loop_y.simps) simp
next
  case (Suc n)
  then have lt: "y < Y (MaxP bounds)" by simp
  have "n = nat (Y (MaxP bounds) - (y + 1))"
    using Suc.hyps(2) by simp
  from Suc.hyps(1) [OF this]
  have IH: "DisplayImage_loop_y subImg bounds x (y + 1) b =
     b @ concat (map (\<lambda>j. pixel_bytes (At subImg x j)) [y + 1..Y (MaxP bounds) - 1])" for b
    by blast
  have "[y..Y (MaxP bounds) - 1] = y # [y + 1..Y (MaxP bounds) - 1]"
    by (rule upto_rec1) (use lt in simp)
  then show ?case
    using lt by (subst DisplayImage_loop_y.simps) (simp add: IH Let_def pixel_bytes_def)
qed

lemma DisplayImage_loop_x_eq:
  "DisplayImage_loop_x subImg bounds x buf =
     buf @ concat (map (\<lambda>i. concat (map (\<lambda>j. pixel_bytes (At subImg i j))
                                      [Y (MinP bounds)..Y (MaxP bounds) - 1]))
                       [x..X (MaxP bounds) - 1])"
proof (induction "nat (X (MaxP bounds) - x)" arbitrary: x buf)
  case 0
  then have "\<not> x < X (MaxP bounds)" by simp
  then show ?case
    by (subst DisplayImage_loop_x.simps) simp
next
  case (Suc n)
  then have lt: "x < X (MaxP bounds)" by simp
  have "n = nat (X (MaxP bounds) - (x + 1))"
    using Suc.hyps(2) by simp
  from Suc.hyps(1) [OF this]
  have IH: "DisplayImage_loop_x subImg bounds (x + 1) b =
     b @ concat (map (\<lambda>i. concat (map (\<lambda>j. pixel_bytes (At subImg i j))
                                      [Y (MinP bounds)..Y (MaxP bounds) - 1]))
                       [x + 1..X (MaxP bounds) - 1])" for b
    by blast
  have "[x..X (MaxP bounds) - 1] = x # [x + 1..X (MaxP bounds) - 1]"
    by (rule upto_rec1) (use lt in simp)
  then show ?case
    using lt by (subst DisplayImage_loop_x.simps) (simp add: IH DisplayImage_loop_y_eq)
qed

lemma length_concat_const:
  "(\<And>x. x \<in> set xs \<Longrightarrow> length (f x) = n) \<Longrightarrow> length (concat (map f xs)) = n * length xs"
  by (induction xs) simp_all

lemma Intersect_coords:
  "Intersect \<lparr>MinP = \<lparr>X = a, Y = b\<rparr>, MaxP = \<lparr>X = c, Y = e\<rparr>\<rparr>
             \<lparr>MinP = \<lparr>X = a', Y = b'\<rparr>, MaxP = \<lparr>X = c', Y = e'\<rparr>\<rparr> =
     (if max a a' \<ge> min c c' \<or> max b b' \<ge> min e e' then ZR
      else \<lparr>MinP = \<lparr>X = max a a', Y = max b b'\<rparr>, MaxP = \<lparr>X = min c c', Y = min e e'\<rparr>\<rparr>)"
  by (cases "a < a'"; cases "b < b'"; cases "c > c'"; cases "e > e'")
     (simp_all add: Intersect_def Let_def Empty_def max_def min_def)

lemma Intersect_eq:
  "Intersect r s =
     (if max (X (MinP r)) (X (MinP s)) \<ge> min (X (MaxP r)) (X (MaxP s))
         \<or> max (Y (MinP r)) (Y (MinP s)) \<ge> min (Y (MaxP r)) (Y (MaxP s)) then ZR
      else \<lparr>MinP = \<lparr>X = max (X (MinP r)) (X (MinP s)), Y = max (Y (MinP r)) (Y (MinP s))\<rparr>,
            MaxP = \<lparr>X = min (X (MaxP r)) (X (MaxP s)), Y = min (Y (MaxP r)) (Y (MaxP s))\<rparr>\<rparr>)"
proof -
  have r: "\<lparr>MinP = \<lparr>X = X (MinP r), Y = Y (MinP r)\<rparr>, MaxP = \<lparr>X = X (MaxP r), Y = Y (MaxP r)\<rparr>\<rparr> = r"
    by simp
  have s: "\<lparr>MinP = \<lparr>X = X (MinP s), Y = Y (MinP s)\<rparr>, MaxP = \<lparr>X = X (MaxP s), Y = Y (MaxP s)\<rparr>\<rparr> = s"
    by simp
  show ?thesis
    using Intersect_coords [of "X (MinP r)" "Y (MinP r)" "X (MaxP r)" "Y (MaxP r)"
      "X (MinP s)" "Y (MinP s)" "X (MaxP s)" "Y (MaxP s)"]
    unfolding r s .
qed

lemma Overlaps_iff: "Overlaps r s \<longleftrightarrow> (\<exists>p. In p r \<and> In p s)"
proof
  assume o: "Overlaps r s"
  let ?p = "\<lparr>X = max (X (MinP r)) (X (MinP s)), Y = max (Y (MinP r)) (Y (MinP s))\<rparr>"
  have "In ?p r \<and> In ?p s"
    using o by (simp add: Overlaps_def Empty_def In_def)
  then show "\<exists>p. In p r \<and> In p s" ..
next
  assume "\<exists>p. In p r \<and> In p s"
  then obtain p where "In p r" "In p s"
    by blast
  then show "Overlaps r s"
    by (simp add: Overlaps_def Empty_def In_def)
qed

lemma Intersect_ZR: "\<not> Overlaps r s \<Longrightarrow> Intersect r s = ZR"
  unfolding Intersect_eq Overlaps_def Empty_def by (simp add: not_less) linarith

lemma sendData_Nil: "sendData env d [] tr = pin_Out env (dc d) High tr"
  by (simp add: sendData_def sendData_loop.simps split: prod.splits option.splits)

lemma DisplayImage_loop_x_Nil:
  "\<not> x < X (MaxP bounds) \<Longrightarrow> DisplayImage_loop_x subImg bounds x buf = buf"
  by (subst DisplayImage_loop_x.simps) simp

lemma DisplayImage_outside:
  assumes "\<not> Overlaps (Add (Bounds img) \<lparr>X = x, Y = y\<rparr>)
              \<lparr>MinP = \<lparr>X = 0, Y = 0\<rparr>, MaxP = \<lparr>X = uint (Width (opts d)), Y = uint (Height (opts d))\<rparr>\<rparr>"
  shows "DisplayImage env d x y img tr =
     (case SetWindow env d 0 0 (- 1) (- 1) tr of
        (tr1, Some err) \<Rightarrow> (tr1, Some err)
      | (tr1, None) \<Rightarrow> pin_Out env (dc d) High tr1)"
proof -
  have w: "wrap_int (- 1) = - 1"
    by (simp add: wrap_int_id)
  show ?thesis
    using Intersect_ZR [OF assms] w
    by (simp add: DisplayImage_def Let_def ZR_def Sub_def DisplayImage_loop_x_Nil sendData_Nil)
qed


text \<open>
  Claim C2 says that \<open>DisplayImage\<close> issues no set-window and sends no pixel data when the
  shifted bounds of the image do not overlap the panel. The second half holds and the
  first does not. \<open>Intersect\<close> then returns the zero rectangle, and \<open>DisplayImage\<close> goes on
  as for any other: it calls \<open>SetWindow(0, 0, -1, -1)\<close>, which sends column-address-set,
  row-address-set and memory-write, and then \<open>sendData\<close> on an empty buffer, which drives
  the select line high and makes no transaction. So, for every environment, the only
  transactions are those of that one set-window; with no failing call the run is the list
  below.
\<close>

theorem DisplayImage_outside_panel:
  "\<not> Overlaps (Add (Bounds img) \<lparr>X = x, Y = y\<rparr>)
       \<lparr>MinP = \<lparr>X = 0, Y = 0\<rparr>, MaxP = \<lparr>X = uint (Width (opts d)), Y = uint (Height (opts d))\<rparr>\<rparr>
   \<longrightarrow>
     DisplayImage env d x y img tr =
       (case SetWindow env d 0 0 (- 1) (- 1) tr of
          (tr1, Some err) \<Rightarrow> (tr1, Some err)
        | (tr1, None) \<Rightarrow> pin_Out env (dc d) High tr1)
   \<and> DisplayImage (no_failure :: 'e env) d x y img [] =
       ([(PinOut (dc d) Low, None), (ConnTx (conn d) [ST7735_CASET], None),
         (PinOut (dc d) High, None),
         (ConnTx (conn d) [0, OffsetLeft (opts d),
                           if OffsetLeft (opts d) = 0 then 255 else 0, OffsetLeft (opts d) - 1], None),
         (PinOut (dc d) Low, None), (ConnTx (conn d) [ST7735_RASET], None),
         (PinOut (dc d) High, None),
         (ConnTx (conn d) [0, OffsetTop (opts d),
                           if OffsetTop (opts d) = 0 then 255 else 0, OffsetTop (opts d) - 1], None),
         (PinOut (dc d) Low, None), (ConnTx (conn d) [ST7735_RAMWR], None),
         (PinOut (dc d) High, None)], None)"
proof (intro impI conjI)
  assume out: "\<not> Overlaps (Add (Bounds img) \<lparr>X = x, Y = y\<rparr>)
       \<lparr>MinP = \<lparr>X = 0, Y = 0\<rparr>, MaxP = \<lparr>X = uint (Width (opts d)), Y = uint (Height (opts d))\<rparr>\<rparr>"
  show "DisplayImage env d x y img tr =
       (case SetWindow env d 0 0 (- 1) (- 1) tr of
          (tr1, Some err) \<Rightarrow> (tr1, Some err)
        | (tr1, None) \<Rightarrow> pin_Out env (dc d) High tr1)"
    using out by (rule DisplayImage_outside)
  show "DisplayImage (no_failure :: 'e env) d x y img [] =
       ([(PinOut (dc d) Low, None), (ConnTx (conn d) [ST7735_CASET], None),
         (PinOut (dc d) High, None),
         (ConnTx (conn d) [0, OffsetLeft (opts d),
                           if OffsetLeft (opts d) = 0 then 255 else 0, OffsetLeft (opts d) - 1], None),
         (PinOut (dc d) Low, None), (ConnTx (conn d) [ST7735_RASET], None),
         (PinOut (dc d) High, None),
         (ConnTx (conn d) [0, OffsetTop (opts d),
                           if OffsetTop (opts d) = 0 then 255 else 0, OffsetTop (opts d) - 1], None),
         (PinOut (dc d) Low, None), (ConnTx (conn d) [ST7735_RAMWR], None),
         (PinOut (dc d) High, None)], None)"
    unfolding DisplayImage_outside [OF out] SetWindow_ok
    by (simp add: pin_Out_def no_failure_def wrap_int_uint wrap_int_uint_pred to_byte_uint
        to_byte_uint_high to_byte_pred to_byte_pred_high)
qed

text \<open>
  The claim as stated fails for the 10 by 10 image \<open>img0\<close> placed at \<open>x = 1000\<close> on the
  default panel: the shifted bounds do not overlap the panel, and the run sends the three
  set-window commands.
\<close>

lemma img0_outside:
  "- 1000 \<le> x \<Longrightarrow> x \<le> 1000 \<Longrightarrow> - 1000 \<le> y \<Longrightarrow> y \<le> 1000 \<Longrightarrow>
   x \<le> - 10 \<or> 80 \<le> x \<or> y \<le> - 10 \<or> 160 \<le> y \<Longrightarrow>
   \<not> Overlaps (Add (Bounds img0) \<lparr>X = x, Y = y\<rparr>)
       \<lparr>MinP = \<lparr>X = 0, Y = 0\<rparr>, MaxP = \<lparr>X = uint (Width (opts dev0)), Y = uint (Height (opts dev0))\<rparr>\<rparr>"
proof -
  assume b: "- 1000 \<le> x" "x \<le> 1000" "- 1000 \<le> y" "y \<le> 1000"
    and o: "x \<le> - 10 \<or> 80 \<le> x \<or> y \<le> - 10 \<or> 160 \<le> y"
  have w: "wrap_int x = x" "wrap_int (10 + x) = 10 + x" "wrap_int y = y" "wrap_int (10 + y) = 10 + y"
    using b by (simp_all add: wrap_int_id)
  show ?thesis
    using o w
    by (auto simp add: Overlaps_def Add_def Bounds_def img0_def dev0_def DefaultOpts_def
        ST7735_COLS_def ST7735_ROWS_def ST7735_TFTWIDTH_def ST7735_TFTHEIGHT_def)
qed

theorem DisplayImage_outside_panel_sets_window:
  "\<not> Overlaps (Add (Bounds img0) \<lparr>X = 1000, Y = 0\<rparr>)
       \<lparr>MinP = \<lparr>X = 0, Y = 0\<rparr>, MaxP = \<lparr>X = uint (Width (opts dev0)), Y = uint (Height (opts dev0))\<rparr>\<rparr>
   \<and> DisplayImage (no_failure :: unit env) dev0 1000 0 img0 [] =
       ([(PinOut 9 Low, None), (ConnTx 0 [ST7735_CASET], None),
         (PinOut 9 High, None), (ConnTx 0 [0, 26, 0, 25], None),
         (PinOut 9 Low, None), (ConnTx 0 [ST7735_RASET], None),
         (PinOut 9 High, None), (ConnTx 0 [0, 1, 0, 0], None),
         (PinOut 9 Low, None), (ConnTx 0 [ST7735_RAMWR], None),
         (PinOut 9 High, None)], None)"
proof
  show out: "\<not> Overlaps (Add (Bounds img0) \<lparr>X = 1000, Y = 0\<rparr>)
       \<lparr>MinP = \<lparr>X = 0, Y = 0\<rparr>, MaxP = \<lparr>X = uint (Width (opts dev0)), Y = uint (Height (opts dev0))\<rparr>\<rparr>"
    by (rule img0_outside) simp_all
  have w: "wrap_int 26 = 26" "wrap_int 25 = 25" "wrap_int 1 = 1" "wrap_int 0 = 0"
    by (simp_all add: wrap_int_small)
  show "DisplayImage (no_failure :: unit env) dev0 1000 0 img0 [] =
       ([(PinOut 9 Low, None), (ConnTx 0 [ST7735_CASET], None),
         (PinOut 9 High, None), (ConnTx 0 [0, 26, 0, 25], None),
         (PinOut 9 Low, None), (ConnTx 0 [ST7735_RASET], None),
         (PinOut 9 High, None), (ConnTx 0 [0, 1, 0, 0], None),
         (PinOut 9 Low, None), (ConnTx 0 [ST7735_RAMWR], None),
         (PinOut 9 High, None)], None)"
    unfolding DisplayImage_outside [OF out] SetWindow_ok
    using w
    by (simp add: pin_Out_def no_failure_def to_byte_def dev0_def DefaultOpts_def
        ST7735_COLS_def ST7735_ROWS_def ST7735_TFTWIDTH_def ST7735_TFTHEIGHT_def)
qed

theorem DisplayImage_outside_panel_witness:
  "\<not> Overlaps (Add (Bounds img0) \<lparr>X = - 50, Y = 200\<rparr>)
       \<lparr>MinP = \<lparr>X = 0, Y = 0\<rparr>, MaxP = \<lparr>X = uint (Width (opts dev0)), Y = uint (Height (opts dev0))\<rparr>\<rparr>
   \<and> DisplayImage (no_failure :: unit env) dev0 (- 50) 200 img0 [] =
       ([(PinOut 9 Low, None), (ConnTx 0 [ST7735_CASET], None),
         (PinOut 9 High, None), (ConnTx 0 [0, 26, 0, 25], None),
         (PinOut 9 Low, None), (ConnTx 0 [ST7735_RASET], None),
         (PinOut 9 High, None), (ConnTx 0 [0, 1, 0, 0], None),
         (PinOut 9 Low, None), (ConnTx 0 [ST7735_RAMWR], None),
         (PinOut 9 High, None)], None)"
proof -
  have out: "\<not> Overlaps (Add (Bounds img0) \<lparr>X = - 50, Y = 200\<rparr>)
       \<lparr>MinP = \<lparr>X = 0, Y = 0\<rparr>, MaxP = \<lparr>X = uint (Width (opts dev0)), Y = uint (Height (opts dev0))\<rparr>\<rparr>"
    by (rule img0_outside) simp_all
  note t = DisplayImage_outside_panel [of img0 "- 50" 200 dev0 "no_failure :: unit env" "[]",
      THEN mp, OF out, THEN conjunct2]
  have o: "opts dev0 = \<lparr>Width = 80, Height = 160, OffsetLeft = 26, OffsetTop = 1\<rparr>"
      "dc dev0 = 9" "conn dev0 = 0"
    by (simp_all add: dev0_def DefaultOpts_def
        ST7735_COLS_def ST7735_ROWS_def ST7735_TFTWIDTH_def ST7735_TFTHEIGHT_def)
  show ?thesis
    using out t by (simp add: o)
qed

section \<open>Clipping\<close>

lemma is_int_wrap: "is_int (wrap_int v)"
  using wrap_int_range [of v] by (simp add: is_int_def)

lemma wrap_int_is_int: "is_int v \<Longrightarrow> wrap_int v = v"
  by (simp add: is_int_def wrap_int_id)

lemma is_int_between: "is_int u \<Longrightarrow> is_int w \<Longrightarrow> u \<le> v \<Longrightarrow> v \<le> w \<Longrightarrow> is_int v"
  by (simp add: is_int_def)

lemma is_int_diff: "is_int u \<Longrightarrow> is_int w \<Longrightarrow> u \<le> w \<Longrightarrow> w - u < 2 ^ 64"
  by (simp add: is_int_def)

text \<open>Shifting an interval by \<open>x\<close> and back, with wrap-around, along one axis.\<close>

lemma shift_back:
  assumes m: "is_int m" and M: "is_int M" and mM: "m \<le> M"
    and lo: "wrap_int (m + x) \<le> i" and hi: "i \<le> wrap_int (M + x)"
  shows "wrap_int (i - x) = m + (i - wrap_int (m + x))"
    and "m + (i - wrap_int (m + x)) \<le> M"
    and "wrap_int (M + x) - wrap_int (m + x) = M - m"
proof -
  define m' where "m' = wrap_int (m + x)"
  define M' where "M' = wrap_int (M + x)"
  obtain k1 where k1: "m' = m + x + k1 * 2 ^ 64"
    using wrap_int_ex [of "m + x"] m'_def by auto
  obtain k2 where k2: "M' = M + x + k2 * 2 ^ 64"
    using wrap_int_ex [of "M + x"] M'_def by auto
  have le: "m' \<le> M'"
    using lo hi by (simp add: m'_def M'_def)
  have d1: "M' - m' < 2 ^ 64"
    using is_int_diff [OF is_int_wrap is_int_wrap le [unfolded m'_def M'_def]]
    by (simp add: m'_def M'_def)
  have d2: "M - m < 2 ^ 64"
    using is_int_diff [OF m M mM] .
  have e: "M' - m' = (M - m) + (k2 - k1) * 2 ^ 64"
    by (simp add: k1 k2 algebra_simps)
  have "(k2 - k1) * 2 ^ 64 < 1 * (2 ^ 64 :: int)"
    using e d1 mM by simp
  then have u: "k2 - k1 < 1"
    by (simp only: mult_less_cancel_right_pos zero_less_power zero_less_numeral)
  have "(- 1) * (2 ^ 64 :: int) < (k2 - k1) * 2 ^ 64"
    using e d2 le by simp
  then have l: "- 1 < k2 - k1"
    by (simp only: mult_less_cancel_right_pos zero_less_power zero_less_numeral)
  from u l have kk: "k2 = k1"
    by simp
  with e show diff: "wrap_int (M + x) - wrap_int (m + x) = M - m"
    by (simp add: m'_def M'_def)
  show up: "m + (i - wrap_int (m + x)) \<le> M"
    using hi diff by simp
  have "is_int (m + (i - m'))"
    using is_int_between [OF m M, of "m + (i - m')"] lo up by (simp add: m'_def)
  then have w: "wrap_int (m + (i - m')) = m + (i - m')"
    by (rule wrap_int_is_int)
  have eq: "i - x = m + (i - m') + k1 * 2 ^ 64"
    by (simp add: k1)
  have "wrap_int (i - x) = wrap_int (m + (i - m') + k1 * 2 ^ 64)"
    by (simp only: eq)
  also have "\<dots> = wrap_int (m + (i - m'))"
    by (rule wrap_int_shift)
  also have "\<dots> = m + (i - m')"
    by (rule w)
  finally show "wrap_int (i - x) = m + (i - wrap_int (m + x))"
    unfolding m'_def .
qed

lemma upto_shift: "map (\<lambda>i. i + k) [a..b] = [a + k..b + k]"
proof (induction "nat (b - a + 1)" arbitrary: a)
  case 0
  then show ?case by simp
next
  case (Suc n)
  then have le: "a \<le> b" by simp
  have "n = nat (b - (a + 1) + 1)"
    using Suc.hyps(2) by simp
  from Suc.hyps(1) [OF this] have IH: "map (\<lambda>i. i + k) [a + 1..b] = [a + 1 + k..b + k]" .
  have "[a..b] = a # [a + 1..b]"
    using le by (rule upto_rec1)
  moreover have "[a + k..b + k] = (a + k) # [a + k + 1..b + k]"
    by (rule upto_rec1) (use le in simp)
  ultimately show ?case
    using IH by (simp add: add.commute add.left_commute)
qed

lemma In_Intersect: "In p (Intersect r s) \<longleftrightarrow> In p r \<and> In p s"
proof (cases "min (X (MaxP r)) (X (MaxP s)) \<le> max (X (MinP r)) (X (MinP s))
         \<or> min (Y (MaxP r)) (Y (MaxP s)) \<le> max (Y (MinP r)) (Y (MinP s))")
  case True
  then have z: "Intersect r s = ZR"
    by (simp add: Intersect_eq)
  have "\<not> (In p r \<and> In p s)"
  proof
    assume "In p r \<and> In p s"
    then have "max (X (MinP r)) (X (MinP s)) \<le> X p" "X p < min (X (MaxP r)) (X (MaxP s))"
        "max (Y (MinP r)) (Y (MinP s)) \<le> Y p" "Y p < min (Y (MaxP r)) (Y (MaxP s))"
      by (simp_all add: In_def)
    with True show False
      by linarith
  qed
  moreover have "\<not> In p ZR"
    by (simp add: In_def ZR_def)
  ultimately show ?thesis
    by (simp add: z)
next
  case False
  then have "Intersect r s =
      \<lparr>MinP = \<lparr>X = max (X (MinP r)) (X (MinP s)), Y = max (Y (MinP r)) (Y (MinP s))\<rparr>,
       MaxP = \<lparr>X = min (X (MaxP r)) (X (MaxP s)), Y = min (Y (MaxP r)) (Y (MaxP s))\<rparr>\<rparr>"
    by (simp add: Intersect_eq)
  then show ?thesis
    by (simp add: In_def) blast
qed

lemma Empty_Intersect: "Empty (Intersect r s) \<Longrightarrow> Intersect r s = ZR"
proof (cases "min (X (MaxP r)) (X (MaxP s)) \<le> max (X (MinP r)) (X (MinP s))
         \<or> min (Y (MaxP r)) (Y (MaxP s)) \<le> max (Y (MinP r)) (Y (MinP s))")
  case True
  then show ?thesis
    by (simp add: Intersect_eq)
next
  case False
  then have "\<not> Empty (Intersect r s)"
    by (simp add: Intersect_eq Empty_def)
  moreover assume "Empty (Intersect r s)"
  ultimately show ?thesis
    by simp
qed

lemma Rect_SubImage: "Rect (SubImage img b) = Intersect b (Rect img)"
  by (cases "Empty (Intersect b (Rect img))") (simp_all add: SubImage_def Let_def Empty_Intersect)

lemma Pix_SubImage: "Pix (SubImage img b) = Pix img"
  by (simp add: SubImage_def Let_def)

lemma At_SubImage:
  "At (SubImage img b) i j =
     (if In \<lparr>X = i, Y = j\<rparr> b then At img i j else \<lparr>R = 0, G = 0, B = 0, A = 0\<rparr>)"
  by (simp add: At_def Rect_SubImage Pix_SubImage In_Intersect)

lemma in_upto_pred: "i \<in> set [a..b - 1] \<longleftrightarrow> a \<le> i \<and> i < b"
  by auto

lemma DisplayImage_buf:
  "DisplayImage_loop_x (SubImage img bounds) bounds (X (MinP bounds)) [] =
     concat (map (\<lambda>i. concat (map (\<lambda>j. pixel_bytes (At img i j))
                                    [Y (MinP bounds)..Y (MaxP bounds) - 1]))
                 [X (MinP bounds)..X (MaxP bounds) - 1])"
proof -
  have "map (\<lambda>i. concat (map (\<lambda>j. pixel_bytes (At (SubImage img bounds) i j))
                                    [Y (MinP bounds)..Y (MaxP bounds) - 1]))
                 [X (MinP bounds)..X (MaxP bounds) - 1] =
        map (\<lambda>i. concat (map (\<lambda>j. pixel_bytes (At img i j))
                                    [Y (MinP bounds)..Y (MaxP bounds) - 1]))
                 [X (MinP bounds)..X (MaxP bounds) - 1]"
  proof (rule map_cong [OF refl])
    fix i
    assume i: "i \<in> set [X (MinP bounds)..X (MaxP bounds) - 1]"
    have "map (\<lambda>j. pixel_bytes (At (SubImage img bounds) i j)) [Y (MinP bounds)..Y (MaxP bounds) - 1] =
          map (\<lambda>j. pixel_bytes (At img i j)) [Y (MinP bounds)..Y (MaxP bounds) - 1]"
    proof (rule map_cong [OF refl])
      fix j
      assume j: "j \<in> set [Y (MinP bounds)..Y (MaxP bounds) - 1]"
      have "In \<lparr>X = i, Y = j\<rparr> bounds"
        using i j by (simp add: In_def)
      then show "pixel_bytes (At (SubImage img bounds) i j) = pixel_bytes (At img i j)"
        by (simp add: At_SubImage)
    qed
    then show "concat (map (\<lambda>j. pixel_bytes (At (SubImage img bounds) i j))
                  [Y (MinP bounds)..Y (MaxP bounds) - 1]) =
               concat (map (\<lambda>j. pixel_bytes (At img i j)) [Y (MinP bounds)..Y (MaxP bounds) - 1])"
      by (rule arg_cong)
  qed
  then have "concat (map (\<lambda>i. concat (map (\<lambda>j. pixel_bytes (At (SubImage img bounds) i j))
                                    [Y (MinP bounds)..Y (MaxP bounds) - 1]))
                 [X (MinP bounds)..X (MaxP bounds) - 1]) =
        concat (map (\<lambda>i. concat (map (\<lambda>j. pixel_bytes (At img i j))
                                    [Y (MinP bounds)..Y (MaxP bounds) - 1]))
                 [X (MinP bounds)..X (MaxP bounds) - 1])"
    by (rule arg_cong)
  then show ?thesis
    unfolding DisplayImage_loop_x_eq append_Nil .
qed

lemma SetWindow_ok_None:
  "SetWindow (no_failure :: 'e env) d x0 y0 x1 y1 tr =
     (fst (SetWindow (no_failure :: 'e env) d x0 y0 x1 y1 tr), None)"
  by (simp add: SetWindow_ok)

lemma DisplayImage_no_failure:
  "DisplayImage (no_failure :: 'e env) d x y img tr =
     (let offsetBounds = Intersect (Add (Bounds img) \<lparr>X = x, Y = y\<rparr>)
            \<lparr>MinP = \<lparr>X = 0, Y = 0\<rparr>,
             MaxP = \<lparr>X = uint (Width (opts d)), Y = uint (Height (opts d))\<rparr>\<rparr>;
          bounds = Sub offsetBounds \<lparr>X = x, Y = y\<rparr>
      in sendData no_failure d
           (concat (map (\<lambda>i. concat (map (\<lambda>j. pixel_bytes (At img i j))
                                    [Y (MinP bounds)..Y (MaxP bounds) - 1]))
                 [X (MinP bounds)..X (MaxP bounds) - 1]))
           (fst (SetWindow no_failure d (X (MinP offsetBounds)) (Y (MinP offsetBounds))
                  (wrap_int (X (MaxP offsetBounds) - 1)) (wrap_int (Y (MaxP offsetBounds) - 1)) tr)))"
  unfolding DisplayImage_def Let_def DisplayImage_buf
  by (subst SetWindow_ok_None) simp

lemma axis_range:
  assumes m: "is_int m" and M: "is_int M" and mM: "m \<le> M"
    and lo: "wrap_int (m + x) \<le> a" and ab: "a \<le> b" and hi: "b \<le> wrap_int (M + x)"
  shows "[wrap_int (a - x)..wrap_int (b - x) - 1] = map (\<lambda>i. wrap_int (i - x)) [a..b - 1]"
proof -
  define k where "k = m - wrap_int (m + x)"
  have w: "wrap_int (i - x) = i + k" if "a \<le> i" "i \<le> b" for i
  proof -
    have "wrap_int (m + x) \<le> i" "i \<le> wrap_int (M + x)"
      using that lo hi by simp_all
    from shift_back(1) [OF m M mM this] show ?thesis
      by (simp add: k_def)
  qed
  have "map (\<lambda>i. wrap_int (i - x)) [a..b - 1] = map (\<lambda>i. i + k) [a..b - 1]"
  proof (rule map_cong [OF refl])
    fix i
    assume "i \<in> set [a..b - 1]"
    then have "a \<le> i" "i \<le> b"
      by simp_all
    then show "wrap_int (i - x) = i + k"
      by (rule w)
  qed
  also have "\<dots> = [a + k..b - 1 + k]"
    by (rule upto_shift)
  also have "\<dots> = [wrap_int (a - x)..wrap_int (b - x) - 1]"
  proof -
    have "b - 1 + k = b + k - 1"
      by simp
    then show ?thesis
      using w [of a] w [of b] ab by (simp only: order_refl)
  qed
  finally show ?thesis
    by simp
qed

lemma clip_cases:
  fixes sb :: Rectangle and w h :: byte
  defines "panel \<equiv> \<lparr>MinP = \<lparr>X = 0, Y = 0\<rparr>, MaxP = \<lparr>X = uint w, Y = uint h\<rparr>\<rparr>"
  obtains (empty) "Intersect sb panel = ZR"
  | (clipped) "Intersect sb panel =
        \<lparr>MinP = \<lparr>X = max (X (MinP sb)) 0, Y = max (Y (MinP sb)) 0\<rparr>,
         MaxP = \<lparr>X = min (X (MaxP sb)) (uint w), Y = min (Y (MaxP sb)) (uint h)\<rparr>\<rparr>"
      "max (X (MinP sb)) 0 < min (X (MaxP sb)) (uint w)"
      "max (Y (MinP sb)) 0 < min (Y (MaxP sb)) (uint h)"
proof (cases "min (X (MaxP sb)) (uint w) \<le> max (X (MinP sb)) 0
         \<or> min (Y (MaxP sb)) (uint h) \<le> max (Y (MinP sb)) 0")
  case True
  then have "Intersect sb panel = ZR"
    by (simp add: Intersect_eq panel_def)
  then show ?thesis by (rule empty)
next
  case False
  then have "Intersect sb panel =
        \<lparr>MinP = \<lparr>X = max (X (MinP sb)) 0, Y = max (Y (MinP sb)) 0\<rparr>,
         MaxP = \<lparr>X = min (X (MaxP sb)) (uint w), Y = min (Y (MaxP sb)) (uint h)\<rparr>\<rparr>"
    by (simp add: Intersect_eq panel_def)
  moreover have "max (X (MinP sb)) 0 < min (X (MaxP sb)) (uint w)"
      "max (Y (MinP sb)) 0 < min (Y (MaxP sb)) (uint h)"
    using False by linarith+
  ultimately show ?thesis by (rule clipped)
qed

lemma length_pixels:
  "length (concat (map (\<lambda>i. concat (map (\<lambda>j. pixel_bytes (f i j)) ys)) xs)) =
     2 * length ys * length xs"
proof -
  have inner: "length (concat (map (\<lambda>j. pixel_bytes (f i j)) ys)) = 2 * length ys" for i
    by (rule length_concat_const) (simp add: pixel_bytes_def)
  show ?thesis
    by (rule length_concat_const) (rule inner)
qed

lemma length_upto_pred: "a \<le> b \<Longrightarrow> int (length [a..b - 1]) = b - a"
  by simp

lemma DisplayImage_clip_buf:
  fixes img :: image_RGBA and d :: Dev and x y :: int
  defines "p \<equiv> \<lparr>X = x, Y = y\<rparr>"
  defines "panel \<equiv> \<lparr>MinP = \<lparr>X = 0, Y = 0\<rparr>,
                      MaxP = \<lparr>X = uint (Width (opts d)), Y = uint (Height (opts d))\<rparr>\<rparr>"
  defines "clip \<equiv> Intersect (Add (Bounds img) p) panel"
  defines "bounds \<equiv> Sub clip p"
  defines "buf \<equiv> concat (map (\<lambda>i. concat (map (\<lambda>j. pixel_bytes (At img (wrap_int (i - x)) (wrap_int (j - y))))
                                          [Y (MinP clip)..Y (MaxP clip) - 1]))
                         [X (MinP clip)..X (MaxP clip) - 1])"
  assumes ints: "is_int (X (MinP (Rect img)))" "is_int (Y (MinP (Rect img)))"
      "is_int (X (MaxP (Rect img)))" "is_int (Y (MaxP (Rect img)))"
    and wf: "well_formed (Rect img)"
  shows "concat (map (\<lambda>i. concat (map (\<lambda>j. pixel_bytes (At img i j))
                                    [Y (MinP bounds)..Y (MaxP bounds) - 1]))
                 [X (MinP bounds)..X (MaxP bounds) - 1]) = buf"
    and "wrap_int (X (MaxP clip) - 1) = X (MaxP clip) - 1"
    and "wrap_int (Y (MaxP clip) - 1) = Y (MaxP clip) - 1"
    and "int (length buf) = 2 * (X (MaxP clip) - X (MinP clip)) * (Y (MaxP clip) - Y (MinP clip))"
proof -
  define sb where "sb = Add (Bounds img) p"
  have sbc: "X (MinP sb) = wrap_int (X (MinP (Rect img)) + x)"
      "X (MaxP sb) = wrap_int (X (MaxP (Rect img)) + x)"
      "Y (MinP sb) = wrap_int (Y (MinP (Rect img)) + y)"
      "Y (MaxP sb) = wrap_int (Y (MaxP (Rect img)) + y)"
    by (simp_all add: sb_def Add_def Bounds_def p_def)
  have bc: "X (MinP bounds) = wrap_int (X (MinP clip) - x)"
      "X (MaxP bounds) = wrap_int (X (MaxP clip) - x)"
      "Y (MinP bounds) = wrap_int (Y (MinP clip) - y)"
      "Y (MaxP bounds) = wrap_int (Y (MaxP clip) - y)"
    by (simp_all add: bounds_def Sub_def p_def)
  have wh: "uint (Width (opts d)) < 256" "uint (Height (opts d)) < 256"
    using uint_bounded [of "Width (opts d)"] uint_bounded [of "Height (opts d)"] by simp_all
  have all: "concat (map (\<lambda>i. concat (map (\<lambda>j. pixel_bytes (At img i j))
                                    [Y (MinP bounds)..Y (MaxP bounds) - 1]))
                 [X (MinP bounds)..X (MaxP bounds) - 1]) = buf
      \<and> wrap_int (X (MaxP clip) - 1) = X (MaxP clip) - 1
      \<and> wrap_int (Y (MaxP clip) - 1) = Y (MaxP clip) - 1
      \<and> int (length buf) = 2 * (X (MaxP clip) - X (MinP clip)) * (Y (MaxP clip) - Y (MinP clip))"
  proof (cases sb "Width (opts d)" "Height (opts d)" rule: clip_cases)
    case empty
    then have z: "clip = ZR"
      by (simp add: clip_def sb_def panel_def)
    have "[X (MinP bounds)..X (MaxP bounds) - 1] = []"
      by (simp add: bc z ZR_def)
    moreover have "buf = []"
      by (simp add: buf_def z ZR_def)
    moreover have "wrap_int (- 1) = - 1"
      by (simp add: wrap_int_small)
    ultimately show ?thesis
      by (simp add: z ZR_def)
  next
    case clipped
    define a where "a = max (X (MinP sb)) 0"
    define b where "b = min (X (MaxP sb)) (uint (Width (opts d)))"
    define c where "c = max (Y (MinP sb)) 0"
    define e where "e = min (Y (MaxP sb)) (uint (Height (opts d)))"
    have cl: "X (MinP clip) = a" "X (MaxP clip) = b" "Y (MinP clip) = c" "Y (MaxP clip) = e"
      using clipped(1) by (simp_all add: clip_def sb_def panel_def a_def b_def c_def e_def)
    have ab: "a < b" and ce: "c < e"
      using clipped(2,3) by (simp_all add: a_def b_def c_def e_def)
    have rng: "0 \<le> a" "b < 256" "0 \<le> c" "e < 256"
      using wh by (simp_all add: a_def b_def c_def e_def)
    have xs: "[wrap_int (a - x)..wrap_int (b - x) - 1] = map (\<lambda>i. wrap_int (i - x)) [a..b - 1]"
    proof (rule axis_range [OF ints(1) ints(3)])
      show "X (MinP (Rect img)) \<le> X (MaxP (Rect img))"
        using wf by (simp add: well_formed_def)
      show "wrap_int (X (MinP (Rect img)) + x) \<le> a"
        by (simp add: a_def sbc)
      show "a \<le> b"
        using ab by simp
      show "b \<le> wrap_int (X (MaxP (Rect img)) + x)"
        by (simp add: b_def sbc)
    qed
    have ys: "[wrap_int (c - y)..wrap_int (e - y) - 1] = map (\<lambda>j. wrap_int (j - y)) [c..e - 1]"
    proof (rule axis_range [OF ints(2) ints(4)])
      show "Y (MinP (Rect img)) \<le> Y (MaxP (Rect img))"
        using wf by (simp add: well_formed_def)
      show "wrap_int (Y (MinP (Rect img)) + y) \<le> c"
        by (simp add: c_def sbc)
      show "c \<le> e"
        using ce by simp
      show "e \<le> wrap_int (Y (MaxP (Rect img)) + y)"
        by (simp add: e_def sbc)
    qed
    have b1: "concat (map (\<lambda>i. concat (map (\<lambda>j. pixel_bytes (At img i j))
                                    [Y (MinP bounds)..Y (MaxP bounds) - 1]))
                 [X (MinP bounds)..X (MaxP bounds) - 1]) = buf"
      unfolding bc cl xs ys buf_def by (simp add: o_def)
    have b2: "wrap_int (b - 1) = b - 1" "wrap_int (e - 1) = e - 1"
      using ab ce rng by (simp_all add: wrap_int_small)
    have "length buf = 2 * length [c..e - 1] * length [a..b - 1]"
      unfolding buf_def cl by (rule length_pixels)
    then have "int (length buf) = 2 * int (length [c..e - 1]) * int (length [a..b - 1])"
      by simp
    also have "\<dots> = 2 * (e - c) * (b - a)"
      using ab ce by (simp only: length_upto_pred less_imp_le)
    finally have b3: "int (length buf) = 2 * (b - a) * (e - c)"
      by (simp add: algebra_simps)
    show ?thesis
      using b1 b2 b3 by (simp add: cl)
  qed
  from all show "concat (map (\<lambda>i. concat (map (\<lambda>j. pixel_bytes (At img i j))
                                    [Y (MinP bounds)..Y (MaxP bounds) - 1]))
                 [X (MinP bounds)..X (MaxP bounds) - 1]) = buf" by blast
  from all show "wrap_int (X (MaxP clip) - 1) = X (MaxP clip) - 1" by blast
  from all show "wrap_int (Y (MaxP clip) - 1) = Y (MaxP clip) - 1" by blast
  from all show "int (length buf) = 2 * (X (MaxP clip) - X (MinP clip)) * (Y (MaxP clip) - Y (MinP clip))"
    by blast
qed

text \<open>
  Claim C5. Let \<open>clip\<close> be the intersection of the image's bounds, shifted by \<open>(x, y)\<close>, with
  the panel rectangle. For an image whose bounds are well-formed, \<open>DisplayImage\<close> sets the
  window to \<open>clip\<close> and then streams a buffer \<open>buf\<close> in chunks of 4096 bytes. The buffer
  holds, for each column \<open>i\<close> of \<open>clip\<close> from left to right and within it for each row \<open>j\<close>
  from top to bottom, the two bytes of the image's pixel that lies at \<open>(i, j)\<close> on the panel,
  that is at \<open>(i - x, j - y)\<close> in the image, the differences taken as Go takes them: the
  outer loop runs over \<open>x\<close>, the inner one over \<open>y\<close>. The chunks together are \<open>buf\<close>, and its
  length is twice the width of \<open>clip\<close> times its height.
\<close>

theorem DisplayImage_clips:
  "let p = \<lparr>X = x, Y = y\<rparr>;
       panel = \<lparr>MinP = \<lparr>X = 0, Y = 0\<rparr>,
                MaxP = \<lparr>X = uint (Width (opts d)), Y = uint (Height (opts d))\<rparr>\<rparr>;
       clip = Intersect (Add (Bounds img) p) panel;
       buf = concat (map (\<lambda>i. concat (map (\<lambda>j. pixel_bytes (At img (wrap_int (i - x)) (wrap_int (j - y))))
                                          [Y (MinP clip)..Y (MaxP clip) - 1]))
                         [X (MinP clip)..X (MaxP clip) - 1])
   in (\<forall>v \<in> {X (MinP (Rect img)), Y (MinP (Rect img)), X (MaxP (Rect img)), Y (MaxP (Rect img))}.
         is_int v) \<and> well_formed (Rect img) \<longrightarrow>
      DisplayImage (no_failure :: 'e env) d x y img [] =
        (fst (SetWindow (no_failure :: 'e env) d (X (MinP clip)) (Y (MinP clip))
                (X (MaxP clip) - 1) (Y (MaxP clip) - 1) [])
           @ (PinOut (dc d) High, None) #
             map (\<lambda>k. (ConnTx (conn d) (take 4096 (drop (k * 4096) buf)), None))
                 [0..<(length buf + 4095) div 4096], None)
      \<and> concat (map (\<lambda>k. take 4096 (drop (k * 4096) buf)) [0..<(length buf + 4095) div 4096]) = buf
      \<and> int (length buf) = 2 * (X (MaxP clip) - X (MinP clip)) * (Y (MaxP clip) - Y (MinP clip))"
proof -
  define p where "p = \<lparr>X = x, Y = y\<rparr>"
  define panel where "panel = \<lparr>MinP = \<lparr>X = 0, Y = 0\<rparr>,
                MaxP = \<lparr>X = uint (Width (opts d)), Y = uint (Height (opts d))\<rparr>\<rparr>"
  define clip where "clip = Intersect (Add (Bounds img) p) panel"
  define buf where "buf = concat (map (\<lambda>i. concat (map (\<lambda>j. pixel_bytes (At img (wrap_int (i - x)) (wrap_int (j - y))))
                                          [Y (MinP clip)..Y (MaxP clip) - 1]))
                         [X (MinP clip)..X (MaxP clip) - 1])"
  have main: "DisplayImage (no_failure :: 'e env) d x y img [] =
        (fst (SetWindow (no_failure :: 'e env) d (X (MinP clip)) (Y (MinP clip))
                (X (MaxP clip) - 1) (Y (MaxP clip) - 1) [])
           @ (PinOut (dc d) High, None) #
             map (\<lambda>k. (ConnTx (conn d) (take 4096 (drop (k * 4096) buf)), None))
                 [0..<(length buf + 4095) div 4096], None)
      \<and> concat (map (\<lambda>k. take 4096 (drop (k * 4096) buf)) [0..<(length buf + 4095) div 4096]) = buf
      \<and> int (length buf) = 2 * (X (MaxP clip) - X (MinP clip)) * (Y (MaxP clip) - Y (MinP clip))"
    if h: "(\<forall>v \<in> {X (MinP (Rect img)), Y (MinP (Rect img)), X (MaxP (Rect img)), Y (MaxP (Rect img))}.
         is_int v) \<and> well_formed (Rect img)"
  proof -
    have ints: "is_int (X (MinP (Rect img)))" "is_int (Y (MinP (Rect img)))"
        "is_int (X (MaxP (Rect img)))" "is_int (Y (MaxP (Rect img)))"
      and wf: "well_formed (Rect img)"
      using h by simp_all
    note raw = DisplayImage_clip_buf [OF ints wf, where d = d and x = x and y = y]
    have cb1: "concat (map (\<lambda>i. concat (map (\<lambda>j. pixel_bytes (At img i j))
                                    [Y (MinP (Sub clip p))..Y (MaxP (Sub clip p)) - 1]))
                 [X (MinP (Sub clip p))..X (MaxP (Sub clip p)) - 1]) = buf"
      unfolding buf_def clip_def panel_def p_def by (rule raw(1))
    have cb2: "wrap_int (X (MaxP clip) - 1) = X (MaxP clip) - 1"
      unfolding clip_def panel_def p_def by (rule raw(2))
    have cb3: "wrap_int (Y (MaxP clip) - 1) = Y (MaxP clip) - 1"
      unfolding clip_def panel_def p_def by (rule raw(3))
    have cb4: "int (length buf) = 2 * (X (MaxP clip) - X (MinP clip)) * (Y (MaxP clip) - Y (MinP clip))"
      unfolding buf_def clip_def panel_def p_def by (rule raw(4))
    have "DisplayImage (no_failure :: 'e env) d x y img [] =
        sendData no_failure d buf
          (fst (SetWindow (no_failure :: 'e env) d (X (MinP clip)) (Y (MinP clip))
                (X (MaxP clip) - 1) (Y (MaxP clip) - 1) []))"
      unfolding DisplayImage_no_failure Let_def
      unfolding p_def [symmetric] panel_def [symmetric] clip_def [symmetric]
      unfolding cb1 cb2 cb3 ..
    then have t: "DisplayImage (no_failure :: 'e env) d x y img [] =
        (fst (SetWindow (no_failure :: 'e env) d (X (MinP clip)) (Y (MinP clip))
                (X (MaxP clip) - 1) (Y (MaxP clip) - 1) [])
           @ (PinOut (dc d) High, None) #
             map (\<lambda>k. (ConnTx (conn d) (take 4096 (drop (k * 4096) buf)), None))
                 [0..<(length buf + 4095) div 4096], None)"
      by (simp add: sendData_ok ChunkSize_def)
    have "length buf \<le> (length buf + 4095) div 4096 * 4096"
      using lt_chunks_iff [of 4096 "(length buf + 4095) div 4096" "length buf"] by simp
    then have c: "concat (map (\<lambda>k. take 4096 (drop (k * 4096) buf)) [0..<(length buf + 4095) div 4096]) = buf"
      by (simp add: chunks_concat)
    show ?thesis
      using t c cb4 by blast
  qed
  show ?thesis
    unfolding Let_def
    using main [unfolded buf_def clip_def panel_def p_def] by blast
qed

lemma dev0_fields:
  "opts dev0 = \<lparr>Width = 80, Height = 160, OffsetLeft = 26, OffsetTop = 1\<rparr>" "dc dev0 = 9" "conn dev0 = 0"
  by (simp_all add: dev0_def DefaultOpts_def ST7735_COLS_def ST7735_ROWS_def
      ST7735_TFTWIDTH_def ST7735_TFTHEIGHT_def)

lemma img0_clip:
  "Intersect (Add (Bounds img0) \<lparr>X = 78, Y = - 7\<rparr>)
     \<lparr>MinP = \<lparr>X = 0, Y = 0\<rparr>, MaxP = \<lparr>X = uint (Width (opts dev0)), Y = uint (Height (opts dev0))\<rparr>\<rparr> =
   \<lparr>MinP = \<lparr>X = 78, Y = 0\<rparr>, MaxP = \<lparr>X = 80, Y = 3\<rparr>\<rparr>"
proof -
  have w: "wrap_int 78 = 78" "wrap_int 88 = 88" "wrap_int (- 7) = - 7" "wrap_int 3 = 3"
    by (simp_all add: wrap_int_id)
  show ?thesis
    using w by (simp add: Intersect_eq Add_def Bounds_def img0_def dev0_fields)
qed

lemma img0_pixel:
  "0 \<le> i \<Longrightarrow> i < 10 \<Longrightarrow> 0 \<le> j \<Longrightarrow> j < 10 \<Longrightarrow>
   At img0 (wrap_int i) (wrap_int j) = \<lparr>R = word_of_int (8 * i), G = word_of_int (4 * j), B = 0, A = 255\<rparr>"
  by (simp add: At_def In_def img0_def wrap_int_small)

lemma img0_buf:
  "concat (map (\<lambda>i. concat (map (\<lambda>j. pixel_bytes (At img0 (wrap_int (i - 78)) (wrap_int (j - - 7))))
                                [0..3 - 1]))
               [78..80 - 1]) = [0, 224, 1, 0, 1, 32, 8, 224, 9, 0, 9, 32]"
proof -
  have xs: "[78..80 - 1] = [78, 79 :: int]"
    by (simp add: upto_rec1 [of 78 79] upto_rec1 [of 79 79])
  have ys: "[0..3 - 1] = [0, 1, 2 :: int]"
    by (simp add: upto_rec1 [of 0 2] upto_rec1 [of 1 2] upto_rec1 [of 2 2])
  have p: "pixel_bytes (At img0 (wrap_int 0) (wrap_int 7)) = [0, 224]"
      "pixel_bytes (At img0 (wrap_int 0) (wrap_int 8)) = [1, 0]"
      "pixel_bytes (At img0 (wrap_int 0) (wrap_int 9)) = [1, 32]"
      "pixel_bytes (At img0 (wrap_int 1) (wrap_int 7)) = [8, 224]"
      "pixel_bytes (At img0 (wrap_int 1) (wrap_int 8)) = [9, 0]"
      "pixel_bytes (At img0 (wrap_int 1) (wrap_int 9)) = [9, 32]"
    by (simp_all add: img0_pixel pixel_bytes_def RGBATo565_def RGBA_def Let_def)
  show ?thesis
    unfolding xs ys by (simp add: p)
qed

theorem DisplayImage_clips_witness:
  "Rect img0 = \<lparr>MinP = \<lparr>X = 0, Y = 0\<rparr>, MaxP = \<lparr>X = 10, Y = 10\<rparr>\<rparr>
   \<and> is_int 0 \<and> is_int 10 \<and> well_formed (Rect img0)
   \<and> DisplayImage (no_failure :: unit env) dev0 78 (- 7) img0 [] =
      ([(PinOut 9 Low, None), (ConnTx 0 [ST7735_CASET], None),
        (PinOut 9 High, None), (ConnTx 0 [0, 104, 0, 105], None),
        (PinOut 9 Low, None), (ConnTx 0 [ST7735_RASET], None),
        (PinOut 9 High, None), (ConnTx 0 [0, 1, 0, 3], None),
        (PinOut 9 Low, None), (ConnTx 0 [ST7735_RAMWR], None),
        (PinOut 9 High, None), (ConnTx 0 [0, 224, 1, 0, 1, 32, 8, 224, 9, 0, 9, 32], None)], None)"
proof -
  have r: "Rect img0 = \<lparr>MinP = \<lparr>X = 0, Y = 0\<rparr>, MaxP = \<lparr>X = 10, Y = 10\<rparr>\<rparr>"
    by (simp add: img0_def)
  have i: "is_int 0" "is_int 10" "well_formed (Rect img0)"
    by (simp_all add: img0_def is_int_def well_formed_def)
  have h: "(\<forall>v \<in> {X (MinP (Rect img0)), Y (MinP (Rect img0)), X (MaxP (Rect img0)), Y (MaxP (Rect img0))}.
         is_int v) \<and> well_formed (Rect img0)"
    using i by (simp add: r)
  note t = DisplayImage_clips [where x = 78 and y = "- 7" and d = dev0 and img = img0 and ?'e = unit,
      unfolded Let_def img0_clip Rectangle.select_convs Point.select_convs img0_buf,
      THEN mp, OF h, THEN conjunct1]
  have w: "wrap_int 104 = 104" "wrap_int 105 = 105" "wrap_int 1 = 1" "wrap_int 3 = 3"
    by (simp_all add: wrap_int_small)
  have "DisplayImage (no_failure :: unit env) dev0 78 (- 7) img0 [] =
      ([(PinOut 9 Low, None), (ConnTx 0 [ST7735_CASET], None),
        (PinOut 9 High, None), (ConnTx 0 [0, 104, 0, 105], None),
        (PinOut 9 Low, None), (ConnTx 0 [ST7735_RASET], None),
        (PinOut 9 High, None), (ConnTx 0 [0, 1, 0, 3], None),
        (PinOut 9 Low, None), (ConnTx 0 [ST7735_RAMWR], None),
        (PinOut 9 High, None), (ConnTx 0 [0, 224, 1, 0, 1, 32, 8, 224, 9, 0, 9, 32], None)], None)"
    using t w
    by (simp add: SetWindow_ok dev0_fields to_byte_def)
  with r i show ?thesis
    by blast
qed

end
